theory Spec2Isabelle
  imports Main "HOL-Library.AList"
begin

section \<open>The data model: TreeValue\<close>

text \<open>
  The values that \<^verbatim>\<open>truncateForOutput\<close> and \<^verbatim>\<open>formatJsonOutput\<close> of
  \<^verbatim>\<open>src/index.ts\<close> work on are decoded database documents: null, booleans,
  numbers, strings, arrays and plain objects.

  \<^item> A JavaScript string is a sequence of UTF-16 code units and \<^verbatim>\<open>.length\<close>,
    \<^verbatim>\<open>.slice\<close> count code units. A \<^typ>\<open>string\<close> of the model is that sequence,
    one \<^typ>\<open>char\<close> for one code unit (the code units below 256).
  \<^item> A number is modelled as an integer, printed in decimal. That is the rendering
    of JavaScript for the integers that a number holds exactly (a magnitude of at
    most \<open>2^53\<close>). Fractions have no value in the model, and the model prints an
    integer of a greater magnitude with all its digits, where JavaScript rounds
    it and, from \<open>10^21\<close> on, prints an exponent.
  \<^item> An object is the list of its own enumerable properties in the order in which
    \<^verbatim>\<open>Object.keys\<close> lists them. A JavaScript object has no two properties of the
    same name: see \<open>wf_json\<close>.
\<close>

datatype json =
    JNull
  | JBool bool
  | JNum int
  | JStr string
  | JArr "json list"
  | JObj "(string \<times> json) list"

text \<open>Every object of a well-formed value has pairwise distinct keys.\<close>

fun wf_json :: "json \<Rightarrow> bool" where
  "wf_json (JArr xs) = list_all wf_json xs"
| "wf_json (JObj kvs) = (distinct (map fst kvs) \<and> list_all (\<lambda>kv. wf_json (snd kv)) kvs)"
| "wf_json v = True"

section \<open>Numbers in template literals\<close>

text \<open>
  \<^verbatim>\<open>`...${remaining} more items`\<close> prints the non-negative integer
  \<^verbatim>\<open>remaining\<close> in decimal.
\<close>

definition digit_char :: "nat \<Rightarrow> char" where
  "digit_char d = ''0123456789'' ! d"

fun dec :: "nat \<Rightarrow> string" where
  "dec n = (if n < 10 then [digit_char n] else dec (n div 10) @ [digit_char (n mod 10)])"

definition show_int :: "int \<Rightarrow> string" where
  "show_int i = (if i < 0 then ''-'' @ dec (nat (- i)) else dec (nat i))"

section \<open>Property access on plain objects\<close>

text \<open>
  \<^verbatim>\<open>value[key]\<close> for a key that \<^verbatim>\<open>Object.keys(value)\<close> returned reads the own
  property of that name. (The \<open>None\<close> branch is never taken for such a key.)
\<close>

definition get_prop :: "(string \<times> json) list \<Rightarrow> string \<Rightarrow> json" where
  "get_prop obj key = (case map_of obj key of Some v \<Rightarrow> v | None \<Rightarrow> JNull)"

text \<open>
  \<^verbatim>\<open>result[key] = v\<close> on an object created by the literal \<^verbatim>\<open>{}\<close>: an existing own
  property keeps its place and takes the new value, a new property is added last.
  The name \<^verbatim>\<open>__proto__\<close> is the exception: the assignment reaches the accessor
  that \<^verbatim>\<open>Object.prototype\<close> defines for it, which sets the prototype of
  \<^verbatim>\<open>result\<close> (or does nothing, for a primitive value) and creates no own property.
\<close>

definition set_prop :: "(string \<times> 'a) list \<Rightarrow> string \<Rightarrow> 'a \<Rightarrow> (string \<times> 'a) list" where
  "set_prop result key v =
     (if key = ''__proto__'' then result else AList.update key v result)"

section \<open>The output bounding engine\<close>

lemma size_get_prop [termination_simp]:
  "size (get_prop kvs key) < Suc (size_list (\<lambda>x. Suc (size (snd x))) kvs)"
  by (induction kvs) (auto simp: get_prop_def split: option.splits)

lemma size_nth_0 [termination_simp]:
  "\<not> length xs \<le> Suc 0 \<Longrightarrow> size (xs ! 0) < Suc (size_list size xs)"
  by (cases xs) auto

text \<open>
  \<^verbatim>\<open>truncateValue\<close>, the inner function of \<^verbatim>\<open>truncateForOutput\<close> (lines 22 to 59).
  The tests \<^verbatim>\<open>typeof value === "string"\<close>, \<^verbatim>\<open>Array.isArray(value)\<close> and
  \<^verbatim>\<open>typeof value === "object" && value !== null\<close> are the constructors of
  \<^typ>\<open>json\<close>, in the order of the source; the last equation is the final
  \<^verbatim>\<open>return value\<close>. The two \<^verbatim>\<open>for\<close> loops over \<^verbatim>\<open>keys\<close> are the folds.
\<close>

fun truncateValue :: "json \<Rightarrow> json" where
  "truncateValue (JStr s) =
     (if length s > 200
      then JStr (take 200 s @ ''...'' @ dec (length s - 200) @ '' more characters'')
      else JStr s)"
| "truncateValue (JArr xs) =
     (if length xs \<le> 1 then JArr (map truncateValue xs)
      else JArr [truncateValue (xs ! 0), JStr (''...'' @ dec (length xs - 1) @ '' more items'')])"
| "truncateValue (JObj kvs) =
     (let keys = map fst kvs in
      if length keys \<le> 200
      then JObj (fold (\<lambda>key result. set_prop result key (truncateValue (get_prop kvs key)))
                   keys [])
      else
        let result = fold (\<lambda>key result. set_prop result key (truncateValue (get_prop kvs key)))
                       (take 200 keys) []
        in JObj (set_prop result (''...'' @ dec (length keys - 200) @ '' more properties'')
                   (JStr ''...'')))"
| "truncateValue v = v"

section \<open>Serialization\<close>

text \<open>
  \<^verbatim>\<open>JSON.stringify\<close> as ECMAScript defines it. \<open>quote\<close> is QuoteJSONString:
  the quotation mark, the backslash and the control characters are escaped.
\<close>

definition hex_char :: "nat \<Rightarrow> char" where
  "hex_char d = ''0123456789abcdef'' ! d"

definition escape_char :: "char \<Rightarrow> string" where
  "escape_char c =
     (if c = CHR 0x08 then [CHR 0x5C, CHR ''b'']
      else if c = CHR 0x09 then [CHR 0x5C, CHR ''t'']
      else if c = CHR 0x0A then [CHR 0x5C, CHR ''n'']
      else if c = CHR 0x0C then [CHR 0x5C, CHR ''f'']
      else if c = CHR 0x0D then [CHR 0x5C, CHR ''r'']
      else if c = CHR 0x22 then [CHR 0x5C, CHR 0x22]
      else if c = CHR 0x5C then [CHR 0x5C, CHR 0x5C]
      else if (of_char c :: nat) < 32
        then [CHR 0x5C, CHR ''u'', CHR ''0'', CHR ''0'',
              hex_char (of_char c div 16), hex_char (of_char c mod 16)]
      else [c])"

definition quote :: "string \<Rightarrow> string" where
  "quote s = [CHR 0x22] @ concat (map escape_char s) @ [CHR 0x22]"

fun join :: "string \<Rightarrow> string list \<Rightarrow> string" where
  "join sep [] = []"
| "join sep [x] = x"
| "join sep (x # y # ys) = x @ sep @ join sep (y # ys)"

text \<open>
  SerializeJSONProperty with SerializeJSONArray and SerializeJSONObject: \<open>gap\<close> is
  the indentation unit (empty for the compact form) and \<open>indent\<close> the current
  indentation.
\<close>

fun serialize :: "string \<Rightarrow> string \<Rightarrow> json \<Rightarrow> string" where
  "serialize gap indent JNull = ''null''"
| "serialize gap indent (JBool b) = (if b then ''true'' else ''false'')"
| "serialize gap indent (JNum n) = show_int n"
| "serialize gap indent (JStr s) = quote s"
| "serialize gap indent (JArr xs) =
     (let stepback = indent; indent = indent @ gap;
          partial = map (serialize gap indent) xs
      in if partial = [] then ''[]''
         else if gap = [] then ''['' @ join '','' partial @ '']''
         else ''['' @ [CHR 0x0A] @ indent @ join ('','' @ [CHR 0x0A] @ indent) partial
              @ [CHR 0x0A] @ stepback @ '']'')"
| "serialize gap indent (JObj kvs) =
     (let stepback = indent; indent = indent @ gap;
          partial = map (\<lambda>kv. quote (fst kv) @ '':'' @ (if gap = [] then [] else '' '')
                                 @ serialize gap indent (snd kv)) kvs
      in if partial = [] then ''{}''
         else if gap = [] then ''{'' @ join '','' partial @ ''}''
         else ''{'' @ [CHR 0x0A] @ indent @ join ('','' @ [CHR 0x0A] @ indent) partial
              @ [CHR 0x0A] @ stepback @ ''}'')"

text \<open>\<^verbatim>\<open>JSON.stringify(obj)\<close> and \<^verbatim>\<open>JSON.stringify(obj, null, 2)\<close>.\<close>

definition JSON_stringify :: "json \<Rightarrow> string" where
  "JSON_stringify obj = serialize [] [] obj"

definition JSON_stringify_2 :: "json \<Rightarrow> string" where
  "JSON_stringify_2 obj = serialize ''  '' [] obj"

text \<open>
  \<^verbatim>\<open>truncateForOutput(obj, maxOutputLength = 25000)\<close>, lines 16 to 62.
\<close>

definition truncateForOutput :: "json \<Rightarrow> int \<Rightarrow> json" where
  "truncateForOutput obj maxOutputLength =
     (let estimatedSize = int (length (JSON_stringify obj)) in
      if estimatedSize \<le> maxOutputLength then obj else truncateValue obj)"

definition defaultMaxOutputLength :: int where
  "defaultMaxOutputLength = 25000"

section \<open>Regular expressions\<close>

text \<open>
  The two patterns of \<^verbatim>\<open>formatJsonOutput\<close> use literal characters, the class
  \<^verbatim>\<open>\d\<close>, the greedy quantifiers \<^verbatim>\<open>+\<close> and \<^verbatim>\<open>?\<close> on a single character, and one
  capturing group. \<open>rx_match\<close> is the backtracking matcher of ECMAScript for this
  fragment: it matches a pattern at the head of the input and returns the captured
  texts and the rest of the input. A greedy quantifier first tries to take one more
  character and falls back to the rest of the pattern when that fails. \<open>opens\<close>
  holds the input as it was at each group that is still open.
\<close>

definition is_digit :: "char \<Rightarrow> bool" where
  "is_digit c = (c \<in> set ''0123456789'')"

datatype atom = Lit char | Digit

datatype item = One atom | Plus atom | Opt atom | GroupOpen | GroupClose

fun atom_matches :: "atom \<Rightarrow> char \<Rightarrow> bool" where
  "atom_matches (Lit a) c = (c = a)"
| "atom_matches Digit c = is_digit c"

fun rx_match ::
  "item list \<Rightarrow> string \<Rightarrow> string list \<Rightarrow> string list \<Rightarrow> (string list \<times> string) option" where
  "rx_match [] s opens caps = Some (caps, s)"
| "rx_match (One a # r) s opens caps =
     (case s of [] \<Rightarrow> None
      | c # cs \<Rightarrow> if atom_matches a c then rx_match r cs opens caps else None)"
| "rx_match (Opt a # r) s opens caps =
     (case (case s of [] \<Rightarrow> None
            | c # cs \<Rightarrow> if atom_matches a c then rx_match r cs opens caps else None) of
        Some m \<Rightarrow> Some m
      | None \<Rightarrow> rx_match r s opens caps)"
| "rx_match (Plus a # r) s opens caps =
     (case s of [] \<Rightarrow> None
      | c # cs \<Rightarrow>
          if atom_matches a c
          then (case rx_match (Plus a # r) cs opens caps of
                  Some m \<Rightarrow> Some m
                | None \<Rightarrow> rx_match r cs opens caps)
          else None)"
| "rx_match (GroupOpen # r) s opens caps = rx_match r s (s # opens) caps"
| "rx_match (GroupClose # r) s opens caps =
     (case opens of [] \<Rightarrow> None
      | start # os \<Rightarrow> rx_match r s os (caps @ [take (length start - length s) start]))"

text \<open>
  A replacement string: literal text and references \<^verbatim>\<open>$n\<close> to the captured
  texts. A reference to a group that the pattern does not have stays as it is
  written.
\<close>

datatype tpl = TLit string | TGroup nat

fun expand :: "tpl list \<Rightarrow> string list \<Rightarrow> string" where
  "expand [] caps = []"
| "expand (TLit t # ts) caps = t @ expand ts caps"
| "expand (TGroup n # ts) caps =
     (if 1 \<le> n \<and> n \<le> length caps then caps ! (n - 1) else ''$'' @ dec n) @ expand ts caps"

text \<open>
  \<^verbatim>\<open>text.replace(/re/g, replacement)\<close>: the matches are looked for from left to
  right, each search starting where the previous match ended (one character
  further after an empty match); the text between the matches is kept.
\<close>

function replace_global :: "item list \<Rightarrow> tpl list \<Rightarrow> string \<Rightarrow> string" where
  "replace_global re t s =
     (case rx_match re s [] [] of
        Some (caps, rest) \<Rightarrow>
          if length rest < length s then expand t caps @ replace_global re t rest
          else expand t caps @ (case s of [] \<Rightarrow> [] | c # cs \<Rightarrow> c # replace_global re t cs)
      | None \<Rightarrow> (case s of [] \<Rightarrow> [] | c # cs \<Rightarrow> c # replace_global re t cs))"
  by pat_completeness auto
termination
  by (relation "measure (\<lambda>(re, t, s). length s)") auto

declare replace_global.simps [simp del]

section \<open>The response formatter\<close>

definition lits :: "string \<Rightarrow> item list" where
  "lits p = map (\<lambda>c. One (Lit c)) p"

text \<open>\<^verbatim>\<open>/"\.\.\.(\d+) more items"/g\<close>\<close>

definition items_re :: "item list" where
  "items_re = lits (CHR 0x22 # ''...'') @ [GroupOpen, Plus Digit, GroupClose]
               @ lits ('' more items'' @ [CHR 0x22])"

text \<open>\<^verbatim>\<open>/"\.\.\.(\d+) more properties": "\.\.\.?"/g\<close>\<close>

definition props_re :: "item list" where
  "props_re = lits (CHR 0x22 # ''...'') @ [GroupOpen, Plus Digit, GroupClose]
               @ lits ('' more properties'' @ [CHR 0x22] @ '': '' @ [CHR 0x22] @ ''..'')
               @ [Opt (Lit CHR ''.'')] @ lits [CHR 0x22]"

text \<open>\<^verbatim>\<open>formatJsonOutput\<close>, lines 64 to 78.\<close>

definition formatJsonOutput :: "json \<Rightarrow> string" where
  "formatJsonOutput data =
     (let truncatedData = truncateForOutput data defaultMaxOutputLength;
          outputText = JSON_stringify_2 truncatedData;
          outputText = replace_global items_re
                         [TLit ''...'', TGroup 1, TLit '' more items''] outputText;
          outputText = replace_global props_re
                         [TLit ''...'', TGroup 1, TLit '' more properties''] outputText
      in outputText)"

section \<open>The connection registry and the tools\<close>

text \<open>
  A thrown value is an \<^verbatim>\<open>Error\<close> with its message or some other value.
  \<open>message\<close> is \<^verbatim>\<open>error instanceof Error ? error.message : 'Unknown error'\<close>.
\<close>

datatype exn = Error string | Thrown

definition message :: "exn \<Rightarrow> string" where
  "message e = (case e of Error m \<Rightarrow> m | Thrown \<Rightarrow> ''Unknown error'')"

text \<open>
  The database driver is not part of the program. The model records every call
  into it, in order, and takes the outcome of a call from a \<open>driver\<close>: a
  function of the calls made so far, the current one last. The constructor of the
  client, \<^verbatim>\<open>connect\<close>, \<^verbatim>\<open>db\<close> and the calls that reach the server return or throw
  as the driver says; the calls that only make a collection or cursor handle
  (\<^verbatim>\<open>collection\<close>, \<^verbatim>\<open>find\<close>, \<^verbatim>\<open>limit\<close>, \<^verbatim>\<open>aggregate\<close>, \<^verbatim>\<open>listCollections\<close>) are
  taken to return.
\<close>

datatype driver_call =
    NewMongoClient string
  | Connect
  | ClientDb string
  | DbCollection string string
  | InsertOne json
  | Find json
  | CursorLimit int
  | ToArray
  | UpdateOne json json
  | UpdateMany json json
  | DeleteOne json
  | DeleteMany json
  | Aggregate "json list"
  | CountDocuments json
  | ListCollections

record driver =
  newClient_result :: "driver_call list \<Rightarrow> exn + unit"
  db_result :: "driver_call list \<Rightarrow> exn + unit"
  connect_result :: "driver_call list \<Rightarrow> exn + unit"
  insert_result :: "driver_call list \<Rightarrow> exn + string"
  toArray_result :: "driver_call list \<Rightarrow> exn + json list"
  update_result :: "driver_call list \<Rightarrow> exn + nat \<times> nat"
  delete_result :: "driver_call list \<Rightarrow> exn + nat"
  count_result :: "driver_call list \<Rightarrow> exn + nat"
  listCollections_result :: "driver_call list \<Rightarrow> exn + string list"

text \<open>
  The module variables \<^verbatim>\<open>mongoClient\<close> (a client is identified by the URI it was
  made for) and \<^verbatim>\<open>databases\<close> (a database handle by its name), and the record of
  the driver calls.
\<close>

record state =
  mongoClient :: "string option"
  databases :: "(string \<times> string) list"
  calls :: "driver_call list"

text \<open>An asynchronous function: it changes the state and returns or throws.\<close>

type_synonym 'a action = "state \<Rightarrow> (exn + 'a) \<times> state"

definition ret :: "'a \<Rightarrow> 'a action" where
  "ret x st = (Inr x, st)"

definition throw :: "exn \<Rightarrow> 'a action" where
  "throw e st = (Inl e, st)"

definition andThen :: "'a action \<Rightarrow> ('a \<Rightarrow> 'b action) \<Rightarrow> 'b action" where
  "andThen m f st = (case m st of (Inl e, st') \<Rightarrow> (Inl e, st') | (Inr x, st') \<Rightarrow> f x st')"

definition tryCatch :: "'a action \<Rightarrow> (exn \<Rightarrow> 'a action) \<Rightarrow> 'a action" where
  "tryCatch m h st = (case m st of (Inl e, st') \<Rightarrow> h e st' | (Inr x, st') \<Rightarrow> (Inr x, st'))"

definition driverCall :: "driver_call \<Rightarrow> (driver_call list \<Rightarrow> exn + 'a) \<Rightarrow> 'a action" where
  "driverCall c result st =
     (let st' = st\<lparr>calls := calls st @ [c]\<rparr> in (result (calls st'), st'))"

text \<open>
  \<^verbatim>\<open>getMongoUri\<close>, lines 80 to 86: \<^verbatim>\<open>!uri\<close> holds for an absent variable and
  for the empty string.
\<close>

definition getMongoUri :: "string option \<Rightarrow> exn + string" where
  "getMongoUri env_uri =
     (case env_uri of
        None \<Rightarrow> Inl (Error ''MONGODB_URI environment variable is not set'')
      | Some uri \<Rightarrow>
          if uri = [] then Inl (Error ''MONGODB_URI environment variable is not set'')
          else Inr uri)"

text \<open>
  \<^verbatim>\<open>ensureConnection\<close>, lines 88 to 100. \<^verbatim>\<open>mongoClient\<close> is assigned when the
  constructor has returned and before \<^verbatim>\<open>connect()\<close> is awaited: a constructor
  that throws leaves it \<^verbatim>\<open>null\<close>, a \<^verbatim>\<open>connect()\<close> that throws leaves the client
  in place. (The last \<open>None\<close> branch is never taken: the entry has just been
  made.)
\<close>

definition ensureConnection :: "string option \<Rightarrow> driver \<Rightarrow> string \<Rightarrow> string action" where
  "ensureConnection env_uri drv dbName =
     andThen
       (\<lambda>st. if mongoClient st = None
             then (case getMongoUri env_uri of
                     Inl e \<Rightarrow> throw e st
                   | Inr uri \<Rightarrow>
                       andThen (driverCall (NewMongoClient uri) (newClient_result drv))
                         (\<lambda>_ st. driverCall Connect (connect_result drv)
                                   (st\<lparr>mongoClient := Some uri\<rparr>))
                         st)
             else ret () st)
       (\<lambda>_. andThen
          (\<lambda>st. if map_of (databases st) dbName = None
                then andThen (driverCall (ClientDb dbName) (db_result drv))
                       (\<lambda>_ st. ret () (st\<lparr>databases :=
                                          AList.update dbName dbName (databases st)\<rparr>))
                       st
                else ret () st)
          (\<lambda>_ st. (case map_of (databases st) dbName of
                      Some db \<Rightarrow> ret db st
                    | None \<Rightarrow> throw Thrown st)))"

text \<open>
  The \<^verbatim>\<open>catch\<close> block of every tool:
  \<^verbatim>\<open>throw new Error(`Failed to ...: ${...}`)\<close>.
\<close>

definition failed :: "string \<Rightarrow> exn \<Rightarrow> 'a action" where
  "failed what e = throw (Error (''Failed to '' @ what @ '': '' @ message e))"

text \<open>The seven tools, lines 102 to 318. An optional parameter is an \<open>option\<close>.\<close>

definition mongo_create_document ::
  "string option \<Rightarrow> driver \<Rightarrow> string \<Rightarrow> string \<Rightarrow> json \<Rightarrow> string action" where
  "mongo_create_document env_uri drv dbName collectionName document =
     tryCatch
       (andThen (ensureConnection env_uri drv dbName) (\<lambda>db.
        andThen (driverCall (DbCollection db collectionName) (\<lambda>_. Inr ())) (\<lambda>_.
        andThen (driverCall (InsertOne document) (insert_result drv)) (\<lambda>insertedId.
        ret (''Document created successfully with ID: '' @ insertedId)))))
       (failed ''create document'')"

definition mongo_find_documents ::
  "string option \<Rightarrow> driver \<Rightarrow> string \<Rightarrow> string \<Rightarrow> json option \<Rightarrow> int option
     \<Rightarrow> string action" where
  "mongo_find_documents env_uri drv dbName collectionName filter_arg limit =
     tryCatch
       (andThen (ensureConnection env_uri drv dbName) (\<lambda>db.
        andThen (driverCall (DbCollection db collectionName) (\<lambda>_. Inr ())) (\<lambda>_.
        andThen (driverCall (Find (case filter_arg of None \<Rightarrow> JObj [] | Some f \<Rightarrow> f))
                   (\<lambda>_. Inr ())) (\<lambda>_.
        andThen (case limit of
                   None \<Rightarrow> ret ()
                 | Some n \<Rightarrow>
                     if n \<noteq> 0 then driverCall (CursorLimit n) (\<lambda>_. Inr ()) else ret ()) (\<lambda>_.
        andThen (driverCall ToArray (toArray_result drv)) (\<lambda>documents.
        ret (''Found '' @ dec (length documents) @ '' document(s):'' @ [CHR 0x0A, CHR 0x0A]
             @ formatJsonOutput (JArr documents))))))))
       (failed ''find documents'')"

definition mongo_update_document ::
  "string option \<Rightarrow> driver \<Rightarrow> string \<Rightarrow> string \<Rightarrow> json \<Rightarrow> json \<Rightarrow> bool option
     \<Rightarrow> string action" where
  "mongo_update_document env_uri drv dbName collectionName filter_arg update_arg updateMany =
     tryCatch
       (andThen (ensureConnection env_uri drv dbName) (\<lambda>db.
        andThen (driverCall (DbCollection db collectionName) (\<lambda>_. Inr ())) (\<lambda>_.
        andThen (if (case updateMany of None \<Rightarrow> False | Some b \<Rightarrow> b)
                 then driverCall (UpdateMany filter_arg update_arg) (update_result drv)
                 else driverCall (UpdateOne filter_arg update_arg) (update_result drv)) (\<lambda>result.
        ret (''Update operation completed. Matched: '' @ dec (fst result)
             @ '', Modified: '' @ dec (snd result))))))
       (failed ''update document(s)'')"

definition mongo_delete_document ::
  "string option \<Rightarrow> driver \<Rightarrow> string \<Rightarrow> string \<Rightarrow> json \<Rightarrow> bool option \<Rightarrow> string action" where
  "mongo_delete_document env_uri drv dbName collectionName filter_arg deleteMany =
     tryCatch
       (andThen (ensureConnection env_uri drv dbName) (\<lambda>db.
        andThen (driverCall (DbCollection db collectionName) (\<lambda>_. Inr ())) (\<lambda>_.
        andThen (if (case deleteMany of None \<Rightarrow> False | Some b \<Rightarrow> b)
                 then driverCall (DeleteMany filter_arg) (delete_result drv)
                 else driverCall (DeleteOne filter_arg) (delete_result drv)) (\<lambda>deletedCount.
        ret (''Delete operation completed. Deleted '' @ dec deletedCount @ '' document(s)'')))))
       (failed ''delete document(s)'')"

definition mongo_aggregate ::
  "string option \<Rightarrow> driver \<Rightarrow> string \<Rightarrow> string \<Rightarrow> json list \<Rightarrow> string action" where
  "mongo_aggregate env_uri drv dbName collectionName pipeline =
     tryCatch
       (andThen (ensureConnection env_uri drv dbName) (\<lambda>db.
        andThen (driverCall (DbCollection db collectionName) (\<lambda>_. Inr ())) (\<lambda>_.
        andThen (driverCall (Aggregate pipeline) (\<lambda>_. Inr ())) (\<lambda>_.
        andThen (driverCall ToArray (toArray_result drv)) (\<lambda>documents.
        ret (''Aggregation returned '' @ dec (length documents) @ '' document(s):''
             @ [CHR 0x0A, CHR 0x0A] @ formatJsonOutput (JArr documents)))))))
       (failed ''execute aggregation'')"

definition mongo_count_documents ::
  "string option \<Rightarrow> driver \<Rightarrow> string \<Rightarrow> string \<Rightarrow> json option \<Rightarrow> string action" where
  "mongo_count_documents env_uri drv dbName collectionName filter_arg =
     tryCatch
       (andThen (ensureConnection env_uri drv dbName) (\<lambda>db.
        andThen (driverCall (DbCollection db collectionName) (\<lambda>_. Inr ())) (\<lambda>_.
        andThen (driverCall (CountDocuments (case filter_arg of None \<Rightarrow> JObj [] | Some f \<Rightarrow> f))
                   (count_result drv)) (\<lambda>count.
        ret (''Found '' @ dec count @ '' document(s) matching the filter'')))))
       (failed ''count documents'')"

definition mongo_list_collections ::
  "string option \<Rightarrow> driver \<Rightarrow> string \<Rightarrow> string action" where
  "mongo_list_collections env_uri drv dbName =
     tryCatch
       (andThen (ensureConnection env_uri drv dbName) (\<lambda>db.
        andThen (driverCall ListCollections (\<lambda>_. Inr ())) (\<lambda>_.
        andThen (driverCall ToArray (listCollections_result drv)) (\<lambda>collectionNames.
        ret (''Collections in database '' @ [CHR 0x27] @ dbName @ [CHR 0x27] @ '':''
             @ [CHR 0x0A] @ join [CHR 0x0A] collectionNames)))))
       (failed ''list collections'')"

section \<open>The bounding engine on a finite call stack\<close>

text \<open>
  \<^verbatim>\<open>JSON.stringify\<close> and \<^verbatim>\<open>truncateValue\<close> are recursive, and the runtime gives a
  call a finite stack: a call that finds no room throws a \<^verbatim>\<open>RangeError\<close>. In
  the functions below \<open>stack\<close> is the number of nested calls of the recursive
  function that the stack has room for (one unit for each level of the value; the
  frames of \<^verbatim>\<open>map\<close> and of its callback are not counted apart). Apart from that
  they are \<open>serialize\<close>, \<open>truncateValue\<close> and \<open>truncateForOutput\<close>; an
  error of a nested call ends the loop that made the call.
\<close>

text \<open>The \<^verbatim>\<open>RangeError\<close> of the exhausted stack.\<close>

definition stack_overflow :: exn where
  "stack_overflow = Error ''Maximum call stack size exceeded''"

text \<open>The results of a loop: the first error, or all the values.\<close>

fun all_ok :: "(exn + 'a) list \<Rightarrow> exn + 'a list" where
  "all_ok [] = Inr []"
| "all_ok (Inl e # rs) = Inl e"
| "all_ok (Inr x # rs) = (case all_ok rs of Inl e \<Rightarrow> Inl e | Inr xs \<Rightarrow> Inr (x # xs))"

fun truncateValue_stack :: "nat \<Rightarrow> json \<Rightarrow> exn + json" where
  "truncateValue_stack 0 v = Inl stack_overflow"
| "truncateValue_stack (Suc d) (JStr s) =
     (if length s > 200
      then Inr (JStr (take 200 s @ ''...'' @ dec (length s - 200) @ '' more characters''))
      else Inr (JStr s))"
| "truncateValue_stack (Suc d) (JArr xs) =
     (if length xs \<le> 1
      then (case all_ok (map (truncateValue_stack d) xs) of
              Inl e \<Rightarrow> Inl e
            | Inr ys \<Rightarrow> Inr (JArr ys))
      else (case truncateValue_stack d (xs ! 0) of
              Inl e \<Rightarrow> Inl e
            | Inr firstItem \<Rightarrow>
                Inr (JArr [firstItem, JStr (''...'' @ dec (length xs - 1) @ '' more items'')])))"
| "truncateValue_stack (Suc d) (JObj kvs) =
     (let keys = map fst kvs;
          loop = (\<lambda>ks. fold (\<lambda>key acc.
                    case acc of
                      Inl e \<Rightarrow> Inl e
                    | Inr result \<Rightarrow>
                        (case truncateValue_stack d (get_prop kvs key) of
                           Inl e \<Rightarrow> Inl e
                         | Inr w \<Rightarrow> Inr (set_prop result key w)))
                  ks (Inr []))
      in if length keys \<le> 200
         then (case loop keys of Inl e \<Rightarrow> Inl e | Inr result \<Rightarrow> Inr (JObj result))
         else (case loop (take 200 keys) of
                 Inl e \<Rightarrow> Inl e
               | Inr result \<Rightarrow>
                   Inr (JObj (set_prop result
                          (''...'' @ dec (length keys - 200) @ '' more properties'')
                          (JStr ''...'')))))"
| "truncateValue_stack (Suc d) v = Inr v"

fun serialize_stack :: "nat \<Rightarrow> string \<Rightarrow> string \<Rightarrow> json \<Rightarrow> exn + string" where
  "serialize_stack 0 gap indent v = Inl stack_overflow"
| "serialize_stack (Suc d) gap indent (JArr xs) =
     (let stepback = indent; indent = indent @ gap in
      case all_ok (map (serialize_stack d gap indent) xs) of
        Inl e \<Rightarrow> Inl e
      | Inr partial \<Rightarrow>
          Inr (if partial = [] then ''[]''
               else if gap = [] then ''['' @ join '','' partial @ '']''
               else ''['' @ [CHR 0x0A] @ indent @ join ('','' @ [CHR 0x0A] @ indent) partial
                    @ [CHR 0x0A] @ stepback @ '']''))"
| "serialize_stack (Suc d) gap indent (JObj kvs) =
     (let stepback = indent; indent = indent @ gap in
      case all_ok (map (\<lambda>kv. case serialize_stack d gap indent (snd kv) of
                                Inl e \<Rightarrow> Inl e
                              | Inr strP \<Rightarrow>
                                  Inr (quote (fst kv) @ '':'' @ (if gap = [] then [] else '' '')
                                       @ strP)) kvs) of
        Inl e \<Rightarrow> Inl e
      | Inr partial \<Rightarrow>
          Inr (if partial = [] then ''{}''
               else if gap = [] then ''{'' @ join '','' partial @ ''}''
               else ''{'' @ [CHR 0x0A] @ indent @ join ('','' @ [CHR 0x0A] @ indent) partial
                    @ [CHR 0x0A] @ stepback @ ''}''))"
| "serialize_stack (Suc d) gap indent v = Inr (serialize gap indent v)"

definition truncateForOutput_stack :: "nat \<Rightarrow> json \<Rightarrow> int \<Rightarrow> exn + json" where
  "truncateForOutput_stack stack obj maxOutputLength =
     (case serialize_stack stack [] [] obj of
        Inl e \<Rightarrow> Inl e
      | Inr text \<Rightarrow>
          let estimatedSize = int (length text) in
          if estimatedSize \<le> maxOutputLength then Inr obj else truncateValue_stack stack obj)"

text \<open>
  The nesting depth of a value, a scalar counting one, and the array that holds
  an array that holds ... \<^verbatim>\<open>null\<close>, \<open>n\<close> arrays deep.
\<close>

fun depth :: "json \<Rightarrow> nat" where
  "depth (JArr xs) = Suc (foldr max (map depth xs) 0)"
| "depth (JObj kvs) = Suc (foldr max (map (\<lambda>kv. depth (snd kv)) kvs) 0)"
| "depth v = 1"

fun nest :: "nat \<Rightarrow> json" where
  "nest 0 = JNull"
| "nest (Suc n) = JArr [nest n]"

section \<open>Positions in a value\<close>

text \<open>
  A node of a value is named by the path that leads to it from the root: array
  indices and object keys.
\<close>

datatype step = Idx nat | Key string

fun at_path :: "json \<Rightarrow> step list \<Rightarrow> json option" where
  "at_path v [] = Some v"
| "at_path (JArr xs) (Idx i # p) = (if i < length xs then at_path (xs ! i) p else None)"
| "at_path (JObj kvs) (Key k # p) =
     (case map_of kvs k of Some v \<Rightarrow> at_path v p | None \<Rightarrow> None)"
| "at_path v (s # p) = None"

text \<open>
  The nodes that the bounding pass keeps: below an array only its first element,
  below an object only the first 200 keys; a key \<^verbatim>\<open>__proto__\<close> is lost by
  \<open>set_prop\<close>, and in an object of more than 200 keys a key that is spelled like
  the marker key of that object is overwritten by the marker.
\<close>

fun retained :: "json \<Rightarrow> step list \<Rightarrow> bool" where
  "retained v [] = True"
| "retained (JArr xs) (Idx i # p) = (i = 0 \<and> xs \<noteq> [] \<and> retained (xs ! 0) p)"
| "retained (JObj kvs) (Key k # p) =
     (k \<in> set (take 200 (map fst kvs)) \<and> k \<noteq> ''__proto__''
      \<and> (length kvs \<le> 200 \<or> k \<noteq> ''...'' @ dec (length kvs - 200) @ '' more properties'')
      \<and> retained (get_prop kvs k) p)"
| "retained v (s # p) = False"

text \<open>Reading a decimal numeral back.\<close>

fun read_dec :: "string \<Rightarrow> nat" where
  "read_dec s = foldl (\<lambda>a c. 10 * a + (of_char c - 48)) 0 s"

section \<open>Example values\<close>

definition ex_doc :: json where
  "ex_doc = JArr [JObj [(''tags'', JArr [JStr ''a'', JStr ''b'', JStr ''c'']),
                        (''one'', JArr [JNum 5]), (''none'', JArr [])], JNull]"

definition long_doc :: json where
  "long_doc = JArr [JObj [(''text'', JStr (replicate 30000 CHR ''x'')), (''short'', JStr ''abc''),
                          (''n'', JNum 42), (''b'', JBool True), (''z'', JNull)]]"

text \<open>
  A document of 201 fields whose first field is named like the marker key that
  \<^verbatim>\<open>truncateValue\<close> adds to an object of 201 keys.
\<close>

definition collide_doc :: json where
  "collide_doc = JObj ((''...1 more properties'', JStr (replicate 30000 CHR ''x''))
       # map (\<lambda>i. (replicate i CHR ''k'', JNull)) [1..<201])"

text \<open>
  The example of the specification, 200 keys that hold a string of 199 characters
  each, and an object of 150 keys that hold a string of 201 characters each.
\<close>

definition medium_doc :: json where
  "medium_doc = JObj (map (\<lambda>i. (replicate i CHR ''k'', JStr (replicate 199 CHR ''a''))) [1..<201])"

definition grow_doc :: json where
  "grow_doc = JObj (map (\<lambda>i. (replicate i CHR ''k'', JStr (replicate 201 CHR ''a''))) [1..<151])"

text \<open>
  An object whose only property is spelled like a marker key but holds two dots.
\<close>

definition two_dots_doc :: json where
  "two_dots_doc = JObj [(''...5 more properties'', JStr ''..'')]"

text \<open>
  A server that has not been used yet, and a driver for a collection of three
  documents: \<^verbatim>\<open>toArray\<close> returns all of them unless \<^verbatim>\<open>limit\<close> was called.
\<close>

definition st0 :: state where
  "st0 = \<lparr>mongoClient = None, databases = [], calls = []\<rparr>"

definition drv0 :: driver where
  "drv0 = \<lparr>newClient_result = (\<lambda>log. Inr ()),
            db_result = (\<lambda>log. Inr ()),
            connect_result = (\<lambda>log. Inr ()),
            insert_result = (\<lambda>log. Inr ''id1''),
            toArray_result = (\<lambda>log. Inr
              (case filter (\<lambda>c. case c of CursorLimit n \<Rightarrow> True | _ \<Rightarrow> False) log of
                 CursorLimit n # _ \<Rightarrow> take (nat n) [JNum 1, JNum 2, JNum 3]
               | _ \<Rightarrow> [JNum 1, JNum 2, JNum 3])),
            update_result = (\<lambda>log. Inr (1, 1)),
            delete_result = (\<lambda>log. Inr 1),
            count_result = (\<lambda>log. Inr 3),
            listCollections_result = (\<lambda>log. Inr [''a'', ''b''])\<rparr>"

section \<open>Unquoting markers in a text\<close>

text \<open>
  What the formatter is to do with the serialized text, said without regular
  expressions. A quoted marker at the head of \<open>s\<close>: the text \<open>pre\<close>, a non-empty
  run of decimal digits, and one of the texts \<open>posts\<close>. \<open>marker_at\<close> returns the
  digits and what follows the marker.
\<close>

definition starts_with :: "string \<Rightarrow> string \<Rightarrow> bool" where
  "starts_with p s = (take (length p) s = p)"

definition marker_at :: "string \<Rightarrow> string list \<Rightarrow> string \<Rightarrow> (string \<times> string) option" where
  "marker_at pre posts s =
     (if starts_with pre s then
        let t = drop (length pre) s;
            n = takeWhile is_digit t;
            u = dropWhile is_digit t
        in if n = [] then None
           else (case find (\<lambda>post. starts_with post u) posts of
                   None \<Rightarrow> None
                 | Some post \<Rightarrow> Some (n, drop (length post) u))
      else None)"

lemma marker_at_shorter:
  assumes "marker_at pre posts s = Some (n, rest)"
  shows "length rest < length s"
proof -
  let ?t = "drop (length pre) s"
  from assms have n: "takeWhile is_digit ?t \<noteq> []"
    by (auto simp: marker_at_def Let_def split: if_splits option.splits)
  from assms obtain post :: string where "rest = drop (length post) (dropWhile is_digit ?t)"
    by (auto simp: marker_at_def Let_def split: if_splits option.splits)
  then have "length rest \<le> length (dropWhile is_digit ?t)" by simp
  also have "length (dropWhile is_digit ?t) < length ?t"
    using n
    by (metis length_greater_0_conv length_append less_add_same_cancel2
        takeWhile_dropWhile_id add.commute)
  also have "length ?t \<le> length s" by simp
  finally show ?thesis .
qed

text \<open>
  \<open>unquote\<close> goes through the text from left to right: a quoted marker becomes
  \<^verbatim>\<open>...<digits><word>\<close>, any other character is copied.
\<close>

function unquote :: "string \<Rightarrow> string list \<Rightarrow> string \<Rightarrow> string \<Rightarrow> string" where
  "unquote pre posts word s =
     (case marker_at pre posts s of
        Some (n, rest) \<Rightarrow> ''...'' @ n @ word @ unquote pre posts word rest
      | None \<Rightarrow> (case s of [] \<Rightarrow> [] | c # cs \<Rightarrow> c # unquote pre posts word cs))"
  by pat_completeness auto
termination
  by (relation "measure (\<lambda>(pre, posts, word, s). length s)")
     (auto simp: marker_at_shorter)

declare unquote.simps [simp del]

text \<open>The quoted string \<^verbatim>\<open>"...<n> more items"\<close> loses its quotation marks.\<close>

definition unquote_items :: "string \<Rightarrow> string" where
  "unquote_items s =
     unquote (CHR 0x22 # ''...'') ['' more items'' @ [CHR 0x22]] '' more items'' s"

text \<open>
  The pair \<^verbatim>\<open>"...<n> more properties": "..."\<close>, as \<^verbatim>\<open>truncateValue\<close> makes it,
  becomes \<^verbatim>\<open>...<n> more properties\<close>.
\<close>

definition unquote_exact_properties :: "string \<Rightarrow> string" where
  "unquote_exact_properties s =
     unquote (CHR 0x22 # ''...'')
       ['' more properties'' @ [CHR 0x22] @ '': '' @ [CHR 0x22] @ ''...'' @ [CHR 0x22]]
       '' more properties'' s"

text \<open>The same for a value of three or of two dots.\<close>

definition props_closings :: "string list" where
  "props_closings =
     ['' more properties'' @ [CHR 0x22] @ '': '' @ [CHR 0x22] @ ''...'' @ [CHR 0x22],
      '' more properties'' @ [CHR 0x22] @ '': '' @ [CHR 0x22] @ ''..'' @ [CHR 0x22]]"

definition unquote_properties :: "string \<Rightarrow> string" where
  "unquote_properties s = unquote (CHR 0x22 # ''...'') props_closings '' more properties'' s"

section \<open>Lemmas on decimal numerals\<close>

lemma digit_char_lt_10: "d < 10 \<Longrightarrow> of_char (digit_char d) = 48 + d"
proof -
  assume "d < 10"
  then have "d \<in> {0, 1, 2, 3, 4, 5, 6, 7, 8, 9}" by auto
  then show ?thesis by (auto simp: digit_char_def)
qed

lemma read_dec_dec: "read_dec (dec n) = n"
proof (induction n rule: dec.induct)
  case (1 n)
  show ?case
  proof (cases "n < 10")
    case True
    then show ?thesis by (simp add: digit_char_lt_10)
  next
    case False
    then have "dec n = dec (n div 10) @ [digit_char (n mod 10)]" by simp
    moreover have "read_dec (dec (n div 10)) = n div 10" using 1 False by simp
    ultimately show ?thesis by (simp add: digit_char_lt_10 del: dec.simps)
  qed
qed

lemma dec_inject: "dec m = dec n \<Longrightarrow> m = n"
  by (metis read_dec_dec)

lemma dec_Suc_0: "dec (Suc 0) = ''1''"
  by (simp add: digit_char_def)

section \<open>Lemmas on property assignment\<close>

lemma map_of_set_prop:
  "map_of (set_prop result key v) k =
     (if key = ''__proto__'' then map_of result k else ((map_of result)(key \<mapsto> v)) k)"
  by (simp add: set_prop_def update_conv')

lemma map_of_fold_set_prop:
  "map_of (fold (\<lambda>key result. set_prop result key (f key)) keys acc) k =
     (if k \<in> set keys \<and> k \<noteq> ''__proto__'' then Some (f k) else map_of acc k)"
  by (induction keys arbitrary: acc) (auto simp: map_of_set_prop)

lemma update_fresh:
  "k \<notin> fst ` set al \<Longrightarrow> AList.update k v al = al @ [(k, v)]"
  by (induction al) auto

lemma fold_set_prop_fresh:
  "distinct keys \<Longrightarrow> ''__proto__'' \<notin> set keys \<Longrightarrow> set keys \<inter> fst ` set acc = {} \<Longrightarrow>
   fold (\<lambda>key result. set_prop result key (f key)) keys acc = acc @ map (\<lambda>k. (k, f k)) keys"
proof (induction keys arbitrary: acc)
  case Nil
  then show ?case by simp
next
  case (Cons k keys)
  from Cons.prems have fresh: "k \<notin> fst ` set acc" by auto
  then have upd: "set_prop acc k (f k) = acc @ [(k, f k)]"
    using Cons.prems(2) by (auto simp: set_prop_def update_fresh)
  have "fold (\<lambda>key result. set_prop result key (f key)) keys (acc @ [(k, f k)])
          = (acc @ [(k, f k)]) @ map (\<lambda>k. (k, f k)) keys"
    using Cons.prems by (intro Cons.IH) auto
  with upd show ?case by simp
qed




lemma get_prop_distinct:
  "distinct (map fst kvs) \<Longrightarrow> (k, v) \<in> set kvs \<Longrightarrow> get_prop kvs k = v"
  by (simp add: get_prop_def)

lemma map_get_prop_distinct:
  assumes "distinct (map fst kvs)" "set ps \<subseteq> set kvs"
  shows "map (\<lambda>k. (k, g (get_prop kvs k))) (map fst ps) = map (\<lambda>kv. (fst kv, g (snd kv))) ps"
  using assms(2) by (induction ps) (auto simp: get_prop_distinct [OF assms(1)])

section \<open>Lemmas on serialization\<close>

lemma concat_escape_replicate:
  "escape_char c = [c] \<Longrightarrow> concat (map escape_char (replicate n c)) = replicate n c"
  by (induction n) simp_all

lemma quote_replicate:
  "escape_char c = [c] \<Longrightarrow> quote (replicate n c) = CHR 0x22 # replicate n c @ [CHR 0x22]"
  by (simp add: quote_def concat_escape_replicate)

lemma escape_char_x: "escape_char CHR ''x'' = ''x''"
  by (simp add: escape_char_def)

lemma escape_char_k: "escape_char CHR ''k'' = ''k''"
  by (simp add: escape_char_def)

lemma escape_char_a: "escape_char CHR ''a'' = ''a''"
  by (simp add: escape_char_def)

lemma length_join_ge: "length x \<le> length (join sep (x # xs))"
  by (cases xs) simp_all

section \<open>The bounding pass, node by node\<close>

text \<open>
  Recursive composition: at every retained position the output of
  \<^verbatim>\<open>truncateValue\<close> holds the bounded form of the node that the input holds there.
\<close>

lemma truncateValue_at_path:
  "at_path v p = Some x \<Longrightarrow> retained v p \<Longrightarrow>
   at_path (truncateValue v) p = Some (truncateValue x)"
proof (induction v p rule: at_path.induct)
  case (1 v)
  then show ?case by simp
next
  case (2 xs i p)
  then show ?case by (cases xs) auto
next
  case (3 kvs k p)
  from "3.prems" obtain v' where v': "map_of kvs k = Some v'" "at_path v' p = Some x"
    by (auto split: option.splits)
  then have g: "get_prop kvs k = v'" by (simp add: get_prop_def)
  from "3.prems" g have r: "retained v' p" by simp
  have ih: "at_path (truncateValue v') p = Some (truncateValue x)"
    using "3.IH" [OF v'(1) v'(2) r] .
  from "3.prems" have k: "k \<in> set (take 200 (map fst kvs))" "k \<noteq> ''__proto__''"
    "length kvs \<le> 200 \<or> k \<noteq> ''...'' @ dec (length kvs - 200) @ '' more properties''"
    by auto
  from k(1) have k': "k \<in> set (map fst kvs)" by (rule in_set_takeD)
  show ?case
    using k k' ih g
    by (auto simp: Let_def map_of_set_prop map_of_fold_set_prop simp del: dec.simps)
qed auto

text \<open>
  An object whose keys are pairwise distinct, none of them \<^verbatim>\<open>__proto__\<close> and (for
  more than 200 keys) none of the first 200 spelled like the marker key: the two
  loops of \<^verbatim>\<open>truncateValue\<close> rebuild the object key by key.
\<close>

lemma truncateValue_object_small:
  assumes "distinct (map fst kvs)" "''__proto__'' \<notin> fst ` set kvs" "length kvs \<le> 200"
  shows "truncateValue (JObj kvs) = JObj (map (\<lambda>kv. (fst kv, truncateValue (snd kv))) kvs)"
proof -
  have "fold (\<lambda>key result. set_prop result key (truncateValue (get_prop kvs key))) (map fst kvs) []
      = map (\<lambda>k. (k, truncateValue (get_prop kvs k))) (map fst kvs)"
    using assms(1,2) by (subst fold_set_prop_fresh) auto
  also have "\<dots> = map (\<lambda>kv. (fst kv, truncateValue (snd kv))) kvs"
    using assms(1) by (intro map_get_prop_distinct) auto
  finally show ?thesis using assms(3) by (simp add: Let_def)
qed

lemma truncateValue_object_large:
  assumes "distinct (map fst kvs)" "''__proto__'' \<notin> fst ` set (take 200 kvs)" "200 < length kvs"
    and "''...'' @ dec (length kvs - 200) @ '' more properties'' \<notin> fst ` set (take 200 kvs)"
  shows "truncateValue (JObj kvs) =
           JObj (map (\<lambda>kv. (fst kv, truncateValue (snd kv))) (take 200 kvs)
                 @ [(''...'' @ dec (length kvs - 200) @ '' more properties'', JStr ''...'')])"
proof -
  let ?m = "''...'' @ dec (length kvs - 200) @ '' more properties''"
  let ?r = "map (\<lambda>kv. (fst kv, truncateValue (snd kv))) (take 200 kvs)"
  have d: "distinct (map fst (take 200 kvs))"
    using assms(1) by (simp add: take_map [symmetric] del: distinct_map)
  have "fold (\<lambda>key result. set_prop result key (truncateValue (get_prop kvs key)))
          (take 200 (map fst kvs)) []
      = map (\<lambda>k. (k, truncateValue (get_prop kvs k))) (map fst (take 200 kvs))"
    using d assms(2) by (subst fold_set_prop_fresh) (auto simp: take_map)
  also have "\<dots> = ?r"
    using assms(1) by (intro map_get_prop_distinct) (auto dest: in_set_takeD)
  finally have f: "fold (\<lambda>key result. set_prop result key (truncateValue (get_prop kvs key)))
          (take 200 (map fst kvs)) [] = ?r" .
  have "?m \<notin> fst ` set ?r" using assms(4) by (force simp del: dec.simps)
  then have "set_prop ?r ?m (JStr ''...'') = ?r @ [(?m, JStr ''...'')]"
    by (simp add: set_prop_def update_fresh del: dec.simps)
  with f assms(3) show ?thesis by (simp add: Let_def del: dec.simps)
qed

lemma truncateValue_single_key:
  "truncateValue (JObj [(replicate (Suc n) CHR ''k'', x)])
     = JObj [(replicate (Suc n) CHR ''k'', truncateValue x)]"
  by (simp add: set_prop_def get_prop_def)


section \<open>Lemmas on the example values\<close>

lemma replicate_k_inj: "inj_on (\<lambda>i. replicate i CHR ''k'') A"
  by (rule inj_onI) (metis length_replicate)

lemma replicate_k_neq:
  "''...1 more properties'' \<noteq> replicate i CHR ''k''" "''__proto__'' \<noteq> replicate i CHR ''k''"
  by (cases i; simp)+

lemma collide_doc_distinct:
  "distinct (''...1 more properties'' # map (\<lambda>i. replicate i CHR ''k'') [a..<b])"
  by (auto simp: distinct_map replicate_k_inj replicate_k_neq)

lemma collide_doc_big: "defaultMaxOutputLength < int (length (JSON_stringify collide_doc))"
proof -
  let ?m = "quote ''...1 more properties'' @ '':'' @ quote (replicate 30000 CHR ''x'')"
  have "30000 \<le> length ?m" by (simp add: quote_replicate [OF escape_char_x])
  also have "\<dots> \<le> length (join '','' (?m # map (\<lambda>kv. quote (fst kv) @ '':'' @ serialize [] [] (snd kv))
       (map (\<lambda>i. (replicate i CHR ''k'', JNull)) [1..<201])))"
    by (rule length_join_ge)
  also have "\<dots> \<le> length (JSON_stringify collide_doc)"
    unfolding collide_doc_def JSON_stringify_def
    by (simp add: Let_def del: join.simps upt_rec_numeral)
  finally show ?thesis by (simp add: defaultMaxOutputLength_def)
qed

lemma length_join:
  "length (join sep xs) = sum_list (map length xs) + length sep * (length xs - 1)"
  by (induction sep xs rule: join.induct) simp_all

lemma sum_list_ge_const:
  "(\<And>x. x \<in> set xs \<Longrightarrow> c \<le> f x) \<Longrightarrow> c * length xs \<le> sum_list (map f xs)"
  by (induction xs) (auto simp: add_mono)

lemma replicate_k_proto: "''__proto__'' \<notin> (\<lambda>i. replicate i CHR ''k'') ` A"
  by (metis imageE replicate_k_neq(2))

lemma truncateValue_medium_doc: "truncateValue medium_doc = medium_doc"
proof -
  let ?kvs = "map (\<lambda>i. (replicate i CHR ''k'', JStr (replicate 199 CHR ''a''))) [1..<201]"
  have d: "distinct (map fst ?kvs)"
    by (simp add: o_def distinct_map replicate_k_inj del: upt_rec_numeral)
  have p: "''__proto__'' \<notin> fst ` set ?kvs"
    using replicate_k_proto [of "set [1..<201]"] by (simp add: image_image del: upt_rec_numeral)
  have l: "length ?kvs \<le> 200" by simp
  show ?thesis
    unfolding medium_doc_def truncateValue_object_small [OF d p l]
    by (simp add: o_def del: upt_rec_numeral)
qed

lemma medium_doc_big: "defaultMaxOutputLength < int (length (JSON_stringify medium_doc))"
proof -
  let ?m = "\<lambda>i. quote (replicate i CHR ''k'') @ '':'' @ quote (replicate 199 CHR ''a'')"
  have "202 * length [1..<201] \<le> sum_list (map (\<lambda>i. length (?m i)) [1..<201])"
    by (rule sum_list_ge_const) (simp add: quote_replicate [OF escape_char_a])
  then have "40400 \<le> sum_list (map (\<lambda>i. length (?m i)) [1..<201])" by simp
  also have "\<dots> \<le> length (join '','' (map ?m [1..<201]))"
    by (simp add: length_join o_def del: upt_rec_numeral)
  also have "\<dots> \<le> length (JSON_stringify medium_doc)"
    by (simp add: medium_doc_def JSON_stringify_def Let_def o_def del: upt_rec_numeral)
  finally show ?thesis by (simp add: defaultMaxOutputLength_def)
qed

lemma truncateValue_grow_doc:
  "truncateValue grow_doc =
     JObj (map (\<lambda>i. (replicate i CHR ''k'', JStr (replicate 200 CHR ''a'' @ ''...1 more characters'')))
       [1..<151])"
proof -
  let ?kvs = "map (\<lambda>i. (replicate i CHR ''k'', JStr (replicate 201 CHR ''a''))) [1..<151]"
  have d: "distinct (map fst ?kvs)"
    by (simp add: o_def distinct_map replicate_k_inj del: upt_rec_numeral)
  have p: "''__proto__'' \<notin> fst ` set ?kvs"
    using replicate_k_proto [of "set [1..<151]"] by (simp add: image_image del: upt_rec_numeral)
  have l: "length ?kvs \<le> 200" by simp
  show ?thesis
    unfolding grow_doc_def truncateValue_object_small [OF d p l]
    by (simp add: o_def dec_Suc_0 del: upt_rec_numeral dec.simps replicate.simps)
qed

lemma quote_marker_string:
  "length (quote (replicate 200 CHR ''a'' @ ''...1 more characters'')) = 222"
  by (simp add: quote_def concat_escape_replicate [OF escape_char_a] escape_char_def)

section \<open>Lemmas on the regular expressions\<close>

lemma rx_match_lits:
  "rx_match (lits p @ r) s opens caps =
     (if starts_with p s then rx_match r (drop (length p) s) opens caps else None)"
proof (induction p arbitrary: s)
  case Nil
  then show ?case by (simp add: lits_def starts_with_def)
next
  case (Cons a p)
  show ?case
  proof (cases s)
    case Nil
    then show ?thesis by (simp add: lits_def starts_with_def)
  next
    case (Cons c cs)
    with Cons.IH [of cs] show ?thesis by (auto simp: lits_def starts_with_def)
  qed
qed

lemma rx_match_digits:
  assumes "\<And>c cs opens caps. is_digit c \<Longrightarrow> rx_match r (c # cs) opens caps = None"
  shows "rx_match (Plus Digit # r) s opens caps =
     (if takeWhile is_digit s = [] then None else rx_match r (dropWhile is_digit s) opens caps)"
proof (induction s)
  case Nil
  then show ?case by simp
next
  case (Cons c cs)
  have step: "rx_match (Plus Digit # r) (c # cs) opens caps =
      (if is_digit c
       then (case rx_match (Plus Digit # r) cs opens caps of
               Some m \<Rightarrow> Some m
             | None \<Rightarrow> rx_match r cs opens caps)
       else None)"
    by simp
  show ?case
  proof (cases "is_digit c")
    case False
    then show ?thesis by simp
  next
    case True
    show ?thesis
    proof (cases "takeWhile is_digit cs = []")
      case False
      then obtain d ds where cs: "cs = d # ds" "is_digit d"
        by (cases cs) (auto split: if_splits)
      have "rx_match r cs opens caps = None"
        unfolding cs(1) using cs(2) by (rule assms)
      with True False Cons.IH show ?thesis
        unfolding step by (simp split: option.splits)
    next
      case e: True
      then have "dropWhile is_digit cs = cs"
        by (metis append_Nil takeWhile_dropWhile_id)
      with True e Cons.IH show ?thesis
        unfolding step by simp
    qed
  qed
qed

lemma take_length_dropWhile:
  "take (length t - length (dropWhile P t)) t = takeWhile P t"
  by (induction t) (auto simp: Suc_diff_le length_dropWhile_le)

lemma rx_match_number_group:
  assumes "\<And>c cs. is_digit c \<Longrightarrow> \<not> starts_with post (c # cs)"
  shows "rx_match ([GroupOpen, Plus Digit, GroupClose] @ lits post @ r) t [] [] =
     (if takeWhile is_digit t = [] \<or> \<not> starts_with post (dropWhile is_digit t) then None
      else rx_match r (drop (length post) (dropWhile is_digit t)) [] [takeWhile is_digit t])"
proof -
  have fail: "\<And>c cs opens caps. is_digit c \<Longrightarrow>
      rx_match (GroupClose # lits post @ r) (c # cs) opens caps = None"
    using assms by (simp add: rx_match_lits split: list.splits)
  have "rx_match ([GroupOpen, Plus Digit, GroupClose] @ lits post @ r) t [] []
      = rx_match (Plus Digit # (GroupClose # lits post @ r)) t [t] []"
    by (simp del: rx_match.simps(4))
  also have "\<dots> = (if takeWhile is_digit t = [] then None
      else rx_match (GroupClose # lits post @ r) (dropWhile is_digit t) [t] [])"
    by (rule rx_match_digits [OF fail])
  also have "\<dots> = (if takeWhile is_digit t = [] \<or> \<not> starts_with post (dropWhile is_digit t)
      then None
      else rx_match r (drop (length post) (dropWhile is_digit t)) [] [takeWhile is_digit t])"
    by (simp add: rx_match_lits take_length_dropWhile)
  finally show ?thesis .
qed

lemma digit_not_space: "is_digit c \<Longrightarrow> \<not> starts_with (CHR '' '' # p) (c # cs)"
  by (auto simp: is_digit_def starts_with_def)

lemma rx_match_items_re:
  "rx_match items_re s [] [] =
     (case marker_at (CHR 0x22 # ''...'') ['' more items'' @ [CHR 0x22]] s of
        Some (n, rest) \<Rightarrow> Some ([n], rest)
      | None \<Rightarrow> None)"
proof -
  have "rx_match items_re s [] [] =
    rx_match (lits (CHR 0x22 # ''...'') @ ([GroupOpen, Plus Digit, GroupClose]
               @ lits ('' more items'' @ [CHR 0x22]) @ [])) s [] []"
    by (simp add: items_re_def)
  also have "\<dots> = (case marker_at (CHR 0x22 # ''...'') ['' more items'' @ [CHR 0x22]] s of
        Some (n, rest) \<Rightarrow> Some ([n], rest)
      | None \<Rightarrow> None)"
    unfolding rx_match_lits
    by (subst rx_match_number_group) (auto simp: marker_at_def Let_def digit_not_space)
  finally show ?thesis .
qed

lemma rx_match_dots:
  "rx_match ([Opt (Lit CHR ''.'')] @ lits [CHR 0x22]) w opens caps =
     (if starts_with (''.'' @ [CHR 0x22]) w then Some (caps, drop 2 w)
      else if starts_with [CHR 0x22] w then Some (caps, drop 1 w)
      else None)"
proof (cases w)
  case Nil
  then show ?thesis by (simp add: lits_def starts_with_def)
next
  case (Cons c cs)
  then show ?thesis
    by (cases cs) (auto simp: lits_def starts_with_def)
qed

lemma starts_with_Nil [simp]: "starts_with [] s"
  by (simp add: starts_with_def)

lemma starts_with_Cons:
  "starts_with (a # p) s = (case s of [] \<Rightarrow> False | c # cs \<Rightarrow> c = a \<and> starts_with p cs)"
  by (cases s) (auto simp: starts_with_def)

lemma starts_with_append:
  "starts_with (p @ q) s = (starts_with p s \<and> starts_with q (drop (length p) s))"
proof (induction p arbitrary: s)
  case Nil
  then show ?case by simp
next
  case (Cons a p)
  then show ?case by (cases s) (auto simp: starts_with_Cons)
qed

lemma marker_at_two:
  "marker_at pre [mid @ x, mid @ y] s =
     (if starts_with pre s then
        let t = drop (length pre) s;
            n = takeWhile is_digit t;
            u = dropWhile is_digit t
        in if n = [] \<or> \<not> starts_with mid u then None
           else let w = drop (length mid) u
                in if starts_with x w then Some (n, drop (length x) w)
                   else if starts_with y w then Some (n, drop (length y) w)
                   else None
      else None)"
  by (simp add: marker_at_def Let_def starts_with_append add.commute)

lemma rx_match_marker:
  assumes nd: "\<And>c cs. is_digit c \<Longrightarrow> \<not> starts_with mid (c # cs)"
    and tail: "\<And>w caps. rx_match tail_re w [] caps =
      (if starts_with x w then Some (caps, drop (length x) w)
       else if starts_with y w then Some (caps, drop (length y) w)
       else None)"
  shows "rx_match (lits pre @ ([GroupOpen, Plus Digit, GroupClose] @ lits mid @ tail_re)) s [] [] =
     (case marker_at pre [mid @ x, mid @ y] s of
        Some (n, rest) \<Rightarrow> Some ([n], rest)
      | None \<Rightarrow> None)"
  unfolding rx_match_lits marker_at_two
  by (subst rx_match_number_group [OF nd]) (simp_all add: tail Let_def)

lemma rx_match_props_re:
  "rx_match props_re s [] [] =
     (case marker_at (CHR 0x22 # ''...'') props_closings s of
        Some (n, rest) \<Rightarrow> Some ([n], rest)
      | None \<Rightarrow> None)"
proof -
  let ?mid = "'' more properties'' @ [CHR 0x22] @ '': '' @ [CHR 0x22] @ ''..''"
  have cl: "props_closings = [?mid @ (''.'' @ [CHR 0x22]), ?mid @ [CHR 0x22]]"
    by (simp add: props_closings_def)
  have re: "props_re = lits (CHR 0x22 # ''...'') @ ([GroupOpen, Plus Digit, GroupClose]
               @ lits ?mid @ ([Opt (Lit CHR ''.'')] @ lits [CHR 0x22]))"
    by (simp add: props_re_def)
  have nd: "\<And>c cs. is_digit c \<Longrightarrow> \<not> starts_with ?mid (c # cs)"
    by (simp add: digit_not_space)
  have tail: "\<And>w caps. rx_match ([Opt (Lit CHR ''.'')] @ lits [CHR 0x22]) w [] caps =
      (if starts_with (''.'' @ [CHR 0x22]) w then Some (caps, drop (length (''.'' @ [CHR 0x22])) w)
       else if starts_with [CHR 0x22] w then Some (caps, drop (length [CHR 0x22]) w)
       else None)"
    unfolding rx_match_dots by (simp add: numeral_2_eq_2)
  show ?thesis
    unfolding re cl by (rule rx_match_marker [OF nd tail])
qed

lemma replace_global_unquote:
  assumes "\<And>s. rx_match re s [] [] =
     (case marker_at pre posts s of
        Some (n, rest) \<Rightarrow> Some ([n], rest)
      | None \<Rightarrow> None)"
  shows "replace_global re [TLit ''...'', TGroup 1, TLit word] s = unquote pre posts word s"
  using assms
proof (induction pre posts word s rule: unquote.induct)
  case (1 pre posts word s)
  let ?t = "[TLit ''...'', TGroup 1, TLit word]"
  note spec = "1.prems"
  show ?case
  proof (cases "marker_at pre posts s")
    case None
    have l: "replace_global re ?t s = (case s of [] \<Rightarrow> [] | c # cs \<Rightarrow> c # replace_global re ?t cs)"
      by (subst replace_global.simps) (simp add: spec None)
    have r: "unquote pre posts word s
        = (case s of [] \<Rightarrow> [] | c # cs \<Rightarrow> c # unquote pre posts word cs)"
      by (subst unquote.simps) (simp add: None)
    show ?thesis
      unfolding l r using "1.IH"(1) [OF None _ spec] by (simp split: list.splits)
  next
    case (Some a)
    obtain n rest where a: "a = (n, rest)" by (cases a)
    with Some have m: "marker_at pre posts s = Some (n, rest)" by simp
    have shorter: "length rest < length s" using m by (rule marker_at_shorter)
    have l: "replace_global re ?t s = ''...'' @ n @ word @ replace_global re ?t rest"
      by (subst replace_global.simps) (simp add: spec m shorter)
    have r: "unquote pre posts word s = ''...'' @ n @ word @ unquote pre posts word rest"
      by (subst unquote.simps) (simp add: m)
    show ?thesis
      unfolding l r using "1.IH"(2) [OF m refl spec] by simp
  qed
qed

text \<open>Text that holds no quotation mark is copied as it is.\<close>

lemma marker_at_other_char:
  "a \<noteq> c \<Longrightarrow> marker_at (a # pre) posts (c # s) = None"
  by (simp add: marker_at_def starts_with_def)

lemma unquote_skip:
  "a \<notin> set p \<Longrightarrow>
   unquote (a # pre) posts word (p @ s) = p @ unquote (a # pre) posts word s"
proof (induction p)
  case Nil
  then show ?case by simp
next
  case (Cons c p)
  then have "unquote (a # pre) posts word ((c # p) @ s)
      = c # unquote (a # pre) posts word (p @ s)"
    by (subst unquote.simps) (simp add: marker_at_other_char)
  with Cons show ?case by simp
qed

section \<open>Lemmas on the finite call stack\<close>

lemma all_ok_map_Inr: "all_ok (map (\<lambda>x. Inr (f x)) xs) = Inr (map f xs)"
  by (induction xs) simp_all



lemma all_ok_if:
  "all_ok (map (\<lambda>x. if P x then Inr (f x) else Inl e0) xs)
     = (if \<forall>x\<in>set xs. P x then Inr (map f xs) else Inl e0)"
proof (induction xs)
  case Nil
  then show ?case by simp
next
  case (Cons a xs)
  then show ?case by (cases "P a") auto
qed

lemma foldr_max_le:
  "foldr max (map f xs) (0::nat) \<le> d \<longleftrightarrow> (\<forall>x\<in>set xs. f x \<le> d)"
  by (induction xs) auto

lemma serialize_stack_exact:
  "serialize_stack d gap indent v
     = (if depth v \<le> d then Inr (serialize gap indent v) else Inl stack_overflow)"
proof (induction d arbitrary: v indent)
  case 0
  then show ?case by (cases v) simp_all
next
  case (Suc d)
  show ?case
  proof (cases v)
    case (JArr xs)
    have "all_ok (map (serialize_stack d gap (indent @ gap)) xs)
        = (if \<forall>x\<in>set xs. depth x \<le> d then Inr (map (serialize gap (indent @ gap)) xs)
           else Inl stack_overflow)"
      unfolding Suc.IH by (rule all_ok_if)
    then show ?thesis using JArr by (simp add: Let_def foldr_max_le)
  next
    case (JObj kvs)
    have "all_ok (map (\<lambda>kv. case serialize_stack d gap (indent @ gap) (snd kv) of
                                Inl e \<Rightarrow> Inl e
                              | Inr strP \<Rightarrow>
                                  Inr (quote (fst kv) @ '':'' @ (if gap = [] then [] else '' '')
                                       @ strP)) kvs)
        = all_ok (map (\<lambda>kv. if depth (snd kv) \<le> d
                             then Inr (quote (fst kv) @ '':'' @ (if gap = [] then [] else '' '')
                                       @ serialize gap (indent @ gap) (snd kv))
                             else Inl stack_overflow) kvs)"
      unfolding Suc.IH by (intro arg_cong [where f = all_ok] map_cong) auto
    also have "\<dots> = (if \<forall>kv\<in>set kvs. depth (snd kv) \<le> d
         then Inr (map (\<lambda>kv. quote (fst kv) @ '':'' @ (if gap = [] then [] else '' '')
                                 @ serialize gap (indent @ gap) (snd kv)) kvs)
         else Inl stack_overflow)"
      by (rule all_ok_if)
    finally show ?thesis using JObj by (simp add: Let_def foldr_max_le)
  qed simp_all
qed




lemma wf_nest: "wf_json (nest n)"
  by (induction n) simp_all

lemma depth_nest: "depth (nest n) = Suc n"
  by (induction n) simp_all



section \<open>Pass-through of values within the budget\<close>

text \<open>
  C1. A value whose compact serialization is at most \<open>budget\<close> long is returned as
  it is: \<^verbatim>\<open>truncateForOutput\<close> returns its argument and \<^verbatim>\<open>truncateValue\<close> is not
  applied to it.
\<close>

theorem truncateForOutput_passthrough:
  "int (length (JSON_stringify v)) \<le> budget \<Longrightarrow> truncateForOutput v budget = v"
  by (simp add: truncateForOutput_def)

text \<open>
  At the array \<^verbatim>\<open>[1,2]\<close> and the default budget: the value comes back unchanged,
  although \<^verbatim>\<open>truncateValue\<close> would have rewritten it.
\<close>

theorem truncateForOutput_passthrough_witness:
  "int (length (JSON_stringify (JArr [JNum 1, JNum 2]))) \<le> defaultMaxOutputLength
   \<and> truncateForOutput (JArr [JNum 1, JNum 2]) defaultMaxOutputLength = JArr [JNum 1, JNum 2]
   \<and> truncateValue (JArr [JNum 1, JNum 2]) \<noteq> JArr [JNum 1, JNum 2]"
proof -
  have small: "int (length (JSON_stringify (JArr [JNum 1, JNum 2]))) \<le> defaultMaxOutputLength"
    by (simp add: JSON_stringify_def defaultMaxOutputLength_def show_int_def digit_char_def)
  from truncateForOutput_passthrough [OF small] small show ?thesis
    by simp
qed

section \<open>The array cap\<close>

text \<open>
  C2. When the value is over the budget, every array node that the pass keeps is
  rewritten as follows. An array of \<open>N \<ge> 2\<close> elements becomes the array of two
  elements: its first element, bounded, and the marker string
  \<^verbatim>\<open>...<N-1> more items\<close>. An array of no or one element keeps its length and gets
  no marker; its elements are bounded in place.
\<close>

theorem array_cap:
  assumes "budget < int (length (JSON_stringify v))"
    and "at_path v p = Some (JArr xs)" and "retained v p"
  shows "at_path (truncateForOutput v budget) p =
     Some (if 2 \<le> length xs
           then JArr [truncateValue (xs ! 0),
                      JStr (''...'' @ dec (length xs - 1) @ '' more items'')]
           else JArr (map truncateValue xs))"
proof -
  from assms(1) have "truncateForOutput v budget = truncateValue v"
    by (simp add: truncateForOutput_def)
  moreover have "at_path (truncateValue v) p = Some (truncateValue (JArr xs))"
    using assms(2,3) by (rule truncateValue_at_path)
  ultimately show ?thesis by (simp del: dec.simps)
qed

text \<open>
  On \<open>ex_doc\<close> with budget 10: the root array of two elements, and inside its first
  element an array of three, of one and of no elements.
\<close>

theorem array_cap_witness:
  "at_path (truncateForOutput ex_doc 10) [Idx 0, Key ''tags'']
     = Some (JArr [JStr ''a'', JStr ''...2 more items''])
   \<and> at_path (truncateForOutput ex_doc 10) [Idx 0, Key ''one''] = Some (JArr [JNum 5])
   \<and> at_path (truncateForOutput ex_doc 10) [Idx 0, Key ''none''] = Some (JArr [])
   \<and> at_path (truncateForOutput ex_doc 10) []
     = Some (JArr [JObj [(''tags'', JArr [JStr ''a'', JStr ''...2 more items'']),
                         (''one'', JArr [JNum 5]), (''none'', JArr [])],
                   JStr ''...1 more items''])"
proof -
  have big: "10 < int (length (JSON_stringify ex_doc))"
    by (simp add: ex_doc_def JSON_stringify_def quote_def escape_char_def)
  have a: "at_path ex_doc [Idx 0, Key ''tags''] = Some (JArr [JStr ''a'', JStr ''b'', JStr ''c''])"
    "retained ex_doc [Idx 0, Key ''tags'']"
    by (simp_all add: ex_doc_def get_prop_def)
  have b: "at_path ex_doc [Idx 0, Key ''one''] = Some (JArr [JNum 5])"
    "retained ex_doc [Idx 0, Key ''one'']"
    by (simp_all add: ex_doc_def get_prop_def)
  have c: "at_path ex_doc [Idx 0, Key ''none''] = Some (JArr [])"
    "retained ex_doc [Idx 0, Key ''none'']"
    by (simp_all add: ex_doc_def get_prop_def)
  have d: "at_path ex_doc [] = Some (JArr [JObj [(''tags'', JArr [JStr ''a'', JStr ''b'', JStr ''c'']),
                        (''one'', JArr [JNum 5]), (''none'', JArr [])], JNull])"
    "retained ex_doc []"
    by (simp_all add: ex_doc_def get_prop_def)
  show ?thesis
    using array_cap [OF big a] array_cap [OF big b] array_cap [OF big c] array_cap [OF big d]
    by (simp add: digit_char_def set_prop_def get_prop_def)
qed

section \<open>The object cap\<close>

text \<open>
  C3. The claim: an object node of \<open>K > 200\<close> keys keeps exactly its first 200 keys,
  each value bounded, and gains one marker key reporting \<open>K - 200\<close>; an object node
  of at most 200 keys keeps all its keys. For keys that are pairwise distinct, none
  of them \<^verbatim>\<open>__proto__\<close> or spelled like the marker key, this is
  \<open>truncateValue_object_small\<close> and \<open>truncateValue_object_large\<close>. It fails on
  \<open>collide_doc\<close>, an object of 201 keys (over the default budget) whose first key is
  \<^verbatim>\<open>...1 more properties\<close>: the assignment of the marker
  (line 54) overwrites that property. The result has 200 keys and not 201, no key
  was gained, and the value of the first key is the marker's \<^verbatim>\<open>"..."\<close> instead of
  the bounded original.
\<close>

theorem object_cap_marker_collision:
  "defaultMaxOutputLength < int (length (JSON_stringify collide_doc)) \<and>
   truncateForOutput collide_doc defaultMaxOutputLength =
     JObj ((''...1 more properties'', JStr ''...'')
           # map (\<lambda>i. (replicate i CHR ''k'', JNull)) [1..<200])"
proof -
  let ?kvs = "(''...1 more properties'', JStr (replicate 30000 CHR ''x''))
       # map (\<lambda>i. (replicate i CHR ''k'', JNull)) [1..<201]"
  let ?f = "\<lambda>k. truncateValue (get_prop ?kvs k)"
  have keys: "map fst ?kvs = ''...1 more properties'' # map (\<lambda>i. replicate i CHR ''k'') [1..<201]"
    by (simp add: o_def del: upt_rec_numeral)
  have tk: "take 200 (map fst ?kvs)
      = ''...1 more properties'' # map (\<lambda>i. replicate i CHR ''k'') [1..<200]"
    unfolding keys by (simp add: take_map del: upt_rec_numeral)
  have dk: "distinct (map fst ?kvs)" unfolding keys by (rule collide_doc_distinct)
  have "fold (\<lambda>key result. set_prop result key (?f key)) (take 200 (map fst ?kvs)) []
      = [] @ map (\<lambda>k. (k, ?f k)) (take 200 (map fst ?kvs))"
    unfolding tk
  proof (rule fold_set_prop_fresh)
    show "distinct (''...1 more properties'' # map (\<lambda>i. replicate i CHR ''k'') [1..<200])"
      by (rule collide_doc_distinct)
    show "''__proto__'' \<notin> set (''...1 more properties'' # map (\<lambda>i. replicate i CHR ''k'') [1..<200])"
      using replicate_k_neq(2) by auto
    show "set (''...1 more properties'' # map (\<lambda>i. replicate i CHR ''k'') [1..<200])
        \<inter> fst ` set [] = {}"
      by simp
  qed
  also have "\<dots> = (''...1 more properties'', ?f ''...1 more properties'')
                   # map (\<lambda>i. (replicate i CHR ''k'', JNull)) [1..<200]"
  proof -
    have "?f (replicate i CHR ''k'') = JNull" if "i \<in> set [1..<200]" for i
    proof -
      have "(replicate i CHR ''k'', JNull) \<in> set ?kvs" using that by auto
      from get_prop_distinct [OF dk this] show ?thesis by simp
    qed
    then show ?thesis
      unfolding tk by (simp add: o_def del: upt_rec_numeral truncateValue.simps get_prop_def)
  qed
  finally have r: "fold (\<lambda>key result. set_prop result key (?f key)) (take 200 (map fst ?kvs)) []
     = (''...1 more properties'', ?f ''...1 more properties'')
                   # map (\<lambda>i. (replicate i CHR ''k'', JNull)) [1..<200]" .
  have len: "length ?kvs = 201" by simp
  have "truncateValue collide_doc = JObj ((''...1 more properties'', JStr ''...'')
           # map (\<lambda>i. (replicate i CHR ''k'', JNull)) [1..<200])"
    unfolding collide_doc_def truncateValue.simps Let_def r length_map len
    by (simp add: set_prop_def dec_Suc_0 del: upt_rec_numeral dec.simps)
  with collide_doc_big show ?thesis by (simp add: truncateForOutput_def)
qed

text \<open>
  The second part of the claim fails as well: an object of two keys, one of them
  \<^verbatim>\<open>__proto__\<close>, comes back with one key.
\<close>

lemma object_cap_proto_key:
  "truncateForOutput (JObj [(''__proto__'', JStr ''x''), (''a'', JNum 1)]) 10
     = JObj [(''a'', JNum 1)]"
  by (simp add: truncateForOutput_def JSON_stringify_def quote_def escape_char_def
      set_prop_def get_prop_def)

section \<open>The string cap\<close>

text \<open>
  C4. When the value is over the budget, every string node of length \<open>L > 200\<close>
  that the pass keeps is replaced by its first 200 characters followed by
  \<^verbatim>\<open>...<L-200> more characters\<close>; a string of at most 200 characters, a number, a
  boolean and null are left as they are.
\<close>

theorem string_cap:
  assumes "budget < int (length (JSON_stringify v))"
    and "at_path v p = Some x" and "retained v p"
  shows "(\<forall>s. x = JStr s \<longrightarrow>
            at_path (truncateForOutput v budget) p =
              Some (JStr (if 200 < length s
                          then take 200 s @ ''...'' @ dec (length s - 200) @ '' more characters''
                          else s)))
       \<and> (x = JNull \<or> x = JBool b \<or> x = JNum n \<longrightarrow>
            at_path (truncateForOutput v budget) p = Some x)"
proof -
  from assms(1) have "truncateForOutput v budget = truncateValue v"
    by (simp add: truncateForOutput_def)
  moreover have "at_path (truncateValue v) p = Some (truncateValue x)"
    using assms(2,3) by (rule truncateValue_at_path)
  ultimately show ?thesis by (auto simp del: dec.simps)
qed

text \<open>
  On \<open>long_doc\<close>, a document with a text field of 30000 characters, at the default
  budget.
\<close>

theorem string_cap_witness:
  "at_path (truncateForOutput long_doc defaultMaxOutputLength) [Idx 0, Key ''text'']
     = Some (JStr (replicate 200 CHR ''x'' @ ''...29800 more characters''))
   \<and> at_path (truncateForOutput long_doc defaultMaxOutputLength) [Idx 0, Key ''short'']
     = Some (JStr ''abc'')
   \<and> at_path (truncateForOutput long_doc defaultMaxOutputLength) [Idx 0, Key ''n'']
     = Some (JNum 42)
   \<and> at_path (truncateForOutput long_doc defaultMaxOutputLength) [Idx 0, Key ''b'']
     = Some (JBool True)
   \<and> at_path (truncateForOutput long_doc defaultMaxOutputLength) [Idx 0, Key ''z'']
     = Some JNull"
proof -
  have big: "defaultMaxOutputLength < int (length (JSON_stringify long_doc))"
    by (simp add: long_doc_def JSON_stringify_def defaultMaxOutputLength_def
        quote_replicate [OF escape_char_x])
  have a: "at_path long_doc [Idx 0, Key ''text''] = Some (JStr (replicate 30000 CHR ''x''))"
    "retained long_doc [Idx 0, Key ''text'']"
    by (simp_all add: long_doc_def get_prop_def)
  have b: "at_path long_doc [Idx 0, Key ''short''] = Some (JStr ''abc'')"
    "retained long_doc [Idx 0, Key ''short'']"
    by (simp_all add: long_doc_def get_prop_def)
  have c: "at_path long_doc [Idx 0, Key ''n''] = Some (JNum 42)"
    "retained long_doc [Idx 0, Key ''n'']"
    by (simp_all add: long_doc_def get_prop_def)
  have d: "at_path long_doc [Idx 0, Key ''b''] = Some (JBool True)"
    "retained long_doc [Idx 0, Key ''b'']"
    by (simp_all add: long_doc_def get_prop_def)
  have e: "at_path long_doc [Idx 0, Key ''z''] = Some JNull"
    "retained long_doc [Idx 0, Key ''z'']"
    by (simp_all add: long_doc_def get_prop_def)
  have dec29800: "dec 29800 = ''29800''" by (simp add: digit_char_def)
  show ?thesis
    using string_cap [OF big a] string_cap [OF big b] string_cap [OF big c]
      string_cap [OF big d] string_cap [OF big e] dec29800
    by (auto simp del: dec.simps)
qed

section \<open>The budget is not a ceiling\<close>

text \<open>
  C5. For every budget there is a well-formed value over the budget whose bounded
  form is over the budget too: the pass never looks at the budget again. (An
  object with one key longer than the budget: keys are never shortened.)
\<close>

theorem bounding_not_a_ceiling:
  "\<exists>v. wf_json v \<and> budget < int (length (JSON_stringify v))
      \<and> budget < int (length (JSON_stringify (truncateForOutput v budget)))"
proof -
  let ?v = "JObj [(replicate (Suc (nat budget)) CHR ''k'', JNull)]"
  have big: "budget < int (length (JSON_stringify ?v))"
    by (simp add: JSON_stringify_def quote_replicate [OF escape_char_k] del: replicate.simps)
  have "truncateForOutput ?v budget = ?v"
    using big
    by (simp add: truncateForOutput_def truncateValue_single_key
        del: replicate.simps truncateValue.simps(3))
  with big have "wf_json ?v \<and> budget < int (length (JSON_stringify ?v))
      \<and> budget < int (length (JSON_stringify (truncateForOutput ?v budget)))"
    by simp
  then show ?thesis ..
qed

text \<open>
  The example of the specification at the default budget: an object of 200 keys
  that hold 199 characters each is over the budget and is not changed at all.
\<close>

lemma medium_doc_stays_over_budget:
  "wf_json medium_doc
   \<and> defaultMaxOutputLength < int (length (JSON_stringify medium_doc))
   \<and> defaultMaxOutputLength
       < int (length (JSON_stringify (truncateForOutput medium_doc defaultMaxOutputLength)))"
proof -
  have "wf_json medium_doc"
    by (simp add: medium_doc_def o_def distinct_map replicate_k_inj list_all_iff del: upt_rec_numeral)
  then show ?thesis
    using medium_doc_big by (simp add: truncateForOutput_def truncateValue_medium_doc)
qed


section \<open>Bounding can lengthen the serialization\<close>

text \<open>
  C10. For every budget there is a well-formed value over the budget whose bounded
  form has a strictly longer serialization: an object with one (long) key that
  holds a string of 201 characters. The string becomes its first 200 characters and
  \<^verbatim>\<open>...1 more characters\<close>, 19 characters more than before.
\<close>

theorem bounding_can_grow:
  "\<exists>v. wf_json v \<and> budget < int (length (JSON_stringify v))
      \<and> length (JSON_stringify v) < length (JSON_stringify (truncateForOutput v budget))"
proof -
  let ?k = "replicate (Suc (nat budget)) CHR ''k''"
  let ?v = "JObj [(?k, JStr (replicate 201 CHR ''a''))]"
  have big: "budget < int (length (JSON_stringify ?v))"
    by (simp add: JSON_stringify_def quote_replicate [OF escape_char_k] del: replicate.simps)
  have t: "truncateForOutput ?v budget
      = JObj [(?k, JStr (replicate 200 CHR ''a'' @ ''...1 more characters''))]"
    using big
    by (simp add: truncateForOutput_def truncateValue_single_key dec_Suc_0
        del: replicate.simps truncateValue.simps(3) dec.simps)
  have q: "quote (replicate 200 CHR ''a'' @ ''...1 more characters'')
         = CHR 0x22 # replicate 200 CHR ''a'' @ ''...1 more characters'' @ [CHR 0x22]"
    by (simp add: quote_def concat_escape_replicate [OF escape_char_a] escape_char_def
        del: replicate.simps)
  have "length (JSON_stringify ?v) < length (JSON_stringify (truncateForOutput ?v budget))"
    unfolding t
    by (simp add: JSON_stringify_def q quote_replicate [OF escape_char_k]
        quote_replicate [OF escape_char_a] del: replicate.simps)
  with big have "wf_json ?v \<and> budget < int (length (JSON_stringify ?v))
      \<and> length (JSON_stringify ?v) < length (JSON_stringify (truncateForOutput ?v budget))"
    by simp
  then show ?thesis ..
qed

text \<open>
  At the default budget: an object of 150 keys that hold 201 characters each.
\<close>

lemma grow_doc_grows:
  "wf_json grow_doc
   \<and> defaultMaxOutputLength < int (length (JSON_stringify grow_doc))
   \<and> length (JSON_stringify grow_doc)
       < length (JSON_stringify (truncateForOutput grow_doc defaultMaxOutputLength))"
proof -
  let ?m = "\<lambda>i. quote (replicate i CHR ''k'') @ '':'' @ quote (replicate 201 CHR ''a'')"
  have w: "wf_json grow_doc"
    by (simp add: grow_doc_def o_def distinct_map replicate_k_inj list_all_iff del: upt_rec_numeral)
  have "206 * length [1..<151] \<le> sum_list (map (\<lambda>i. length (?m i)) [1..<151])"
    by (rule sum_list_ge_const)
       (simp add: quote_replicate [OF escape_char_a] quote_replicate [OF escape_char_k])
  then have "30900 \<le> sum_list (map (\<lambda>i. length (?m i)) [1..<151])" by simp
  also have "\<dots> \<le> length (join '','' (map ?m [1..<151]))"
    by (simp add: length_join o_def del: upt_rec_numeral)
  also have "\<dots> \<le> length (JSON_stringify grow_doc)"
    by (simp add: grow_doc_def JSON_stringify_def Let_def o_def del: upt_rec_numeral)
  finally have big: "defaultMaxOutputLength < int (length (JSON_stringify grow_doc))"
    by (simp add: defaultMaxOutputLength_def)
  have t: "truncateForOutput grow_doc defaultMaxOutputLength = truncateValue grow_doc"
    using big by (simp add: truncateForOutput_def)
  have "length (JSON_stringify grow_doc) < length (JSON_stringify (truncateValue grow_doc))"
    unfolding truncateValue_grow_doc
    by (simp add: grow_doc_def JSON_stringify_def Let_def o_def length_join quote_marker_string
        quote_replicate [OF escape_char_a] quote_replicate [OF escape_char_k]
        sum_list_addf sum_list_triv
        del: upt_rec_numeral replicate.simps)
  with w big t show ?thesis by simp
qed

section \<open>Totality of the bounding engine\<close>




text \<open>Whatever the size of the stack and the budget, some well-formed value overflows it.\<close>

lemma stack_overflow_at_every_limit:
  "\<exists>v. wf_json v \<and> truncateForOutput_stack stack v budget = Inl stack_overflow"
proof -
  have "truncateForOutput_stack stack (nest stack) budget = Inl stack_overflow"
    by (simp add: truncateForOutput_stack_def serialize_stack_exact depth_nest)
  with wf_nest show ?thesis by blast
qed

section \<open>The response formatter rewrites the markers\<close>

text \<open>
  C6, as amended. \<^verbatim>\<open>formatJsonOutput\<close> bounds the value at the default budget,
  serializes it with an indentation of two spaces and then goes through the text
  from left to right: every occurrence of \<^verbatim>\<open>"...<n> more items"\<close> (\<open>n\<close> a non-empty
  run of decimal digits) loses its two quotation marks, and then every occurrence
  of \<^verbatim>\<open>"...<n> more properties": "..."\<close> or of
  \<^verbatim>\<open>"...<n> more properties": ".."\<close> becomes \<^verbatim>\<open>...<n> more properties\<close>. Every
  other character of the text is copied. The occurrences are occurrences in the
  text, whether or not a truncation marker is where they come from.
\<close>

theorem format_unquotes_markers:
  "formatJsonOutput v =
     unquote_properties (unquote_items
       (JSON_stringify_2 (truncateForOutput v defaultMaxOutputLength)))"
  unfolding formatJsonOutput_def Let_def unquote_items_def unquote_properties_def
  by (simp only: replace_global_unquote [OF rx_match_items_re]
      replace_global_unquote [OF rx_match_props_re])

text \<open>
  C6 as it is stated has the formatter rewrite the marker pairs, whose value is
  \<^verbatim>\<open>"..."\<close>, and leave all other text unchanged. The pattern of line 73 ends in
  \<^verbatim>\<open>\.\.\.?\<close> and takes a value of two dots as well: on \<open>two_dots_doc\<close> the
  formatter removes a pair that is no marker pair.
\<close>

theorem format_exact_markers_counterexample:
  "formatJsonOutput two_dots_doc
     = ''{'' @ [CHR 0x0A] @ ''  ...5 more properties'' @ [CHR 0x0A] @ ''}''
   \<and> unquote_exact_properties (unquote_items
         (JSON_stringify_2 (truncateForOutput two_dots_doc defaultMaxOutputLength)))
     = ''{'' @ [CHR 0x0A] @ ''  '' @ [CHR 0x22] @ ''...5 more properties'' @ [CHR 0x22] @ '': ''
         @ [CHR 0x22] @ ''..'' @ [CHR 0x22] @ [CHR 0x0A] @ ''}''
   \<and> formatJsonOutput two_dots_doc
     \<noteq> unquote_exact_properties (unquote_items
         (JSON_stringify_2 (truncateForOutput two_dots_doc defaultMaxOutputLength)))"
  by (simp add: two_dots_doc_def formatJsonOutput_def truncateForOutput_def
      defaultMaxOutputLength_def JSON_stringify_def JSON_stringify_2_def
      quote_def escape_char_def items_re_def props_re_def lits_def is_digit_def
      replace_global.simps unquote_exact_properties_def unquote_items_def marker_at_def
      starts_with_def unquote.simps)

text \<open>
  A bounded value with a marker of either kind, as the formatter prints it.
\<close>

lemma format_bounded_example:
  "formatJsonOutput (JObj [(''a'', JArr [JNum 1, JStr ''...2 more items'']),
                           (''...12 more properties'', JStr ''...'')])
     = ''{'' @ [CHR 0x0A]
       @ ''  '' @ [CHR 0x22] @ ''a'' @ [CHR 0x22] @ '': ['' @ [CHR 0x0A]
       @ ''    1,'' @ [CHR 0x0A]
       @ ''    ...2 more items'' @ [CHR 0x0A]
       @ ''  ],'' @ [CHR 0x0A]
       @ ''  ...12 more properties'' @ [CHR 0x0A]
       @ ''}''"
  by (simp add: formatJsonOutput_def truncateForOutput_def
      defaultMaxOutputLength_def JSON_stringify_def JSON_stringify_2_def show_int_def
      digit_char_def quote_def escape_char_def items_re_def props_re_def lits_def is_digit_def
      replace_global.simps)

text \<open>
  The patterns know nothing of strings: in the string \<^verbatim>\<open>x"...5 more items\<close> the
  escaped quotation mark and the closing one are taken for those of a marker.
\<close>

lemma format_inside_string:
  "formatJsonOutput (JStr (CHR ''x'' # CHR 0x22 # ''...5 more items''))
     = [CHR 0x22] @ ''x'' @ [CHR 0x5C] @ ''...5 more items''"
  by (simp add: formatJsonOutput_def truncateForOutput_def
      defaultMaxOutputLength_def JSON_stringify_def JSON_stringify_2_def
      quote_def escape_char_def items_re_def props_re_def lits_def is_digit_def
      replace_global.simps)

section \<open>A missing connection URI\<close>

text \<open>
  C8. While \<^verbatim>\<open>MONGODB_URI\<close> is absent and no client has been made,
  \<^verbatim>\<open>ensureConnection\<close> throws the configuration error, and every tool throws it
  with its own prefix. The state is the one before the call: no client was
  constructed, no database handle was cached and no call into the driver was made.
\<close>

theorem config_error_fail_fast:
  assumes "env_uri = None" and "mongoClient st = None"
  shows "ensureConnection env_uri drv dbName st
           = (Inl (Error ''MONGODB_URI environment variable is not set''), st)
    \<and> mongo_create_document env_uri drv dbName coll doc st
           = (Inl (Error
               ''Failed to create document: MONGODB_URI environment variable is not set''), st)
    \<and> mongo_find_documents env_uri drv dbName coll flt lim st
           = (Inl (Error
               ''Failed to find documents: MONGODB_URI environment variable is not set''), st)
    \<and> mongo_update_document env_uri drv dbName coll flt' upd many st
           = (Inl (Error
               ''Failed to update document(s): MONGODB_URI environment variable is not set''), st)
    \<and> mongo_delete_document env_uri drv dbName coll flt' many st
           = (Inl (Error
               ''Failed to delete document(s): MONGODB_URI environment variable is not set''), st)
    \<and> mongo_aggregate env_uri drv dbName coll pipeline st
           = (Inl (Error
               ''Failed to execute aggregation: MONGODB_URI environment variable is not set''), st)
    \<and> mongo_count_documents env_uri drv dbName coll flt st
           = (Inl (Error
               ''Failed to count documents: MONGODB_URI environment variable is not set''), st)
    \<and> mongo_list_collections env_uri drv dbName st
           = (Inl (Error
               ''Failed to list collections: MONGODB_URI environment variable is not set''), st)"
proof -
  have e: "ensureConnection env_uri drv dbName st
           = (Inl (Error ''MONGODB_URI environment variable is not set''), st)"
    using assms by (simp add: ensureConnection_def andThen_def getMongoUri_def throw_def)
  show ?thesis
    unfolding mongo_create_document_def mongo_find_documents_def mongo_update_document_def
      mongo_delete_document_def mongo_aggregate_def mongo_count_documents_def
      mongo_list_collections_def
    by (simp add: e tryCatch_def andThen_def failed_def throw_def message_def)
qed

text \<open>On the unused server \<open>st0\<close>: its record of driver calls stays empty.\<close>

theorem config_error_fail_fast_witness:
  "ensureConnection None drv0 ''shop'' st0
           = (Inl (Error ''MONGODB_URI environment variable is not set''), st0)
    \<and> mongo_create_document None drv0 ''shop'' ''orders'' (JObj []) st0
           = (Inl (Error
               ''Failed to create document: MONGODB_URI environment variable is not set''), st0)
    \<and> mongo_find_documents None drv0 ''shop'' ''orders'' None (Some 3) st0
           = (Inl (Error
               ''Failed to find documents: MONGODB_URI environment variable is not set''), st0)
    \<and> mongo_update_document None drv0 ''shop'' ''orders'' (JObj []) (JObj []) None st0
           = (Inl (Error
               ''Failed to update document(s): MONGODB_URI environment variable is not set''), st0)
    \<and> mongo_delete_document None drv0 ''shop'' ''orders'' (JObj []) None st0
           = (Inl (Error
               ''Failed to delete document(s): MONGODB_URI environment variable is not set''), st0)
    \<and> mongo_aggregate None drv0 ''shop'' ''orders'' [] st0
           = (Inl (Error
               ''Failed to execute aggregation: MONGODB_URI environment variable is not set''), st0)
    \<and> mongo_count_documents None drv0 ''shop'' ''orders'' None st0
           = (Inl (Error
               ''Failed to count documents: MONGODB_URI environment variable is not set''), st0)
    \<and> mongo_list_collections None drv0 ''shop'' st0
           = (Inl (Error
               ''Failed to list collections: MONGODB_URI environment variable is not set''), st0)
    \<and> calls st0 = [] \<and> mongoClient st0 = None \<and> databases st0 = []"
proof -
  have c: "mongoClient st0 = None" by (simp add: st0_def)
  show ?thesis
    using config_error_fail_fast [OF refl c, of drv0 "''shop''" "''orders''" "JObj []" None
        "Some 3" "JObj []" "JObj []" None "[]"]
    by (simp add: st0_def)
qed

text \<open>A variable that is set to the empty string counts as absent.\<close>

lemma config_error_empty_uri:
  "mongoClient st = None \<Longrightarrow>
   ensureConnection (Some []) drv dbName st
     = (Inl (Error ''MONGODB_URI environment variable is not set''), st)"
  by (simp add: ensureConnection_def andThen_def getMongoUri_def throw_def)

section \<open>\<^verbatim>\<open>find-documents\<close> with \<^verbatim>\<open>limit: 0\<close>\<close>

text \<open>
  C9. A call of the find tool with \<^verbatim>\<open>limit: 0\<close> puts no cap on the cursor:
  \<^verbatim>\<open>if (limit)\<close> is false for 0, \<^verbatim>\<open>cursor.limit\<close> is not called, and the call
  does what a call without \<^verbatim>\<open>limit\<close> does. All documents that \<^verbatim>\<open>toArray\<close> returns
  for the uncapped cursor are printed, and their number is the one in
  \<^verbatim>\<open>Found <n> document(s):\<close>.
\<close>

theorem find_limit_zero_is_no_limit:
  assumes "ensureConnection env_uri drv dbName st = (Inr db, st1)"
    and "toArray_result drv (calls st1 @ [DbCollection db coll,
           Find (case flt of None \<Rightarrow> JObj [] | Some f \<Rightarrow> f), ToArray]) = Inr documents"
  shows "mongo_find_documents env_uri drv dbName coll flt (Some 0) st =
           (Inr (''Found '' @ dec (length documents) @ '' document(s):'' @ [CHR 0x0A, CHR 0x0A]
                 @ formatJsonOutput (JArr documents)),
            st1\<lparr>calls := calls st1 @ [DbCollection db coll,
                     Find (case flt of None \<Rightarrow> JObj [] | Some f \<Rightarrow> f), ToArray]\<rparr>)
       \<and> mongo_find_documents env_uri drv dbName coll flt (Some 0) st
           = mongo_find_documents env_uri drv dbName coll flt None st"
  using assms
  by (simp add: mongo_find_documents_def tryCatch_def andThen_def driverCall_def ret_def Let_def
      del: dec.simps)

text \<open>
  With the driver \<open>drv0\<close>, whose collection holds three documents: \<^verbatim>\<open>limit: 0\<close>
  returns the three of them.
\<close>

theorem find_limit_zero_is_no_limit_witness:
  "mongo_find_documents (Some ''mongodb://localhost'') drv0 ''shop'' ''orders'' None (Some 0) st0 =
     (Inr (''Found 3 document(s):'' @ [CHR 0x0A, CHR 0x0A]
           @ formatJsonOutput (JArr [JNum 1, JNum 2, JNum 3])),
      \<lparr>mongoClient = Some ''mongodb://localhost'', databases = [(''shop'', ''shop'')],
       calls = [NewMongoClient ''mongodb://localhost'', Connect, ClientDb ''shop'',
                DbCollection ''shop'' ''orders'', Find (JObj []), ToArray]\<rparr>)
   \<and> mongo_find_documents (Some ''mongodb://localhost'') drv0 ''shop'' ''orders'' None (Some 0) st0
     = mongo_find_documents (Some ''mongodb://localhost'') drv0 ''shop'' ''orders'' None None st0"
proof -
  let ?st1 = "\<lparr>mongoClient = Some ''mongodb://localhost'', databases = [(''shop'', ''shop'')],
       calls = [NewMongoClient ''mongodb://localhost'', Connect, ClientDb ''shop'']\<rparr>"
  have c: "ensureConnection (Some ''mongodb://localhost'') drv0 ''shop'' st0 = (Inr ''shop'', ?st1)"
    by (simp add: ensureConnection_def andThen_def getMongoUri_def driverCall_def ret_def
        st0_def drv0_def Let_def)
  have t: "toArray_result drv0 (calls ?st1 @ [DbCollection ''shop'' ''orders'',
           Find (case None of None \<Rightarrow> JObj [] | Some f \<Rightarrow> f), ToArray])
         = Inr [JNum 1, JNum 2, JNum 3]"
    by (simp add: drv0_def)
  have d: "dec (Suc (Suc (Suc 0))) = ''3''" by (simp add: digit_char_def)
  note r = find_limit_zero_is_no_limit [OF c t]
  show ?thesis
    by (simp add: r [THEN conjunct1] r [THEN conjunct2, symmetric] d del: dec.simps)
qed

text \<open>The same call with \<^verbatim>\<open>limit: 2\<close> caps the cursor.\<close>

lemma find_limit_two:
  "mongo_find_documents (Some ''mongodb://localhost'') drv0 ''shop'' ''orders'' None (Some 2) st0 =
     (Inr (''Found 2 document(s):'' @ [CHR 0x0A, CHR 0x0A]
           @ formatJsonOutput (JArr [JNum 1, JNum 2])),
      \<lparr>mongoClient = Some ''mongodb://localhost'', databases = [(''shop'', ''shop'')],
       calls = [NewMongoClient ''mongodb://localhost'', Connect, ClientDb ''shop'',
                DbCollection ''shop'' ''orders'', Find (JObj []), CursorLimit 2, ToArray]\<rparr>)"
  by (simp add: mongo_find_documents_def tryCatch_def andThen_def driverCall_def ret_def Let_def
       ensureConnection_def getMongoUri_def st0_def drv0_def digit_char_def)

end
